theory Spec2Isabelle
  imports Main "HOL-Library.Word"
begin

unbundle bit_operations_syntax

section \<open>Go values as reflection sees them\<close>

text \<open>
  The package walks a configuration struct with \<^verbatim>\<open>reflect\<close>. A \<^verbatim>\<open>reflect.Value\<close> is
  modelled by the datatype \<open>val\<close>, one constructor per kind the code distinguishes, and a
  \<^verbatim>\<open>reflect.Type\<close> by \<open>gotype\<close>. Strings are byte strings. A pointer owns its pointee
  (the tree has no aliasing), struct types are finite (no type refers to itself) and only
  struct types carry methods. Kinds the code sends to its default branches without
  looking inside (maps) are kept opaque; interfaces, arrays, channels and functions are
  not modelled.
\<close>

datatype intKind = KInt | KInt8 | KInt16 | KInt32 | KInt64

datatype uintKind = KUint | KUint8 | KUint16 | KUint32 | KUint64

datatype floatKind = KFloat32 | KFloat64

text \<open>\<^verbatim>\<open>Type.Bits()\<close>, on a 64-bit platform.\<close>

fun intBits :: "intKind \<Rightarrow> nat" where
  "intBits KInt = 64"
| "intBits KInt8 = 8"
| "intBits KInt16 = 16"
| "intBits KInt32 = 32"
| "intBits KInt64 = 64"

fun uintBits :: "uintKind \<Rightarrow> nat" where
  "uintBits KUint = 64"
| "uintBits KUint8 = 8"
| "uintBits KUint16 = 16"
| "uintBits KUint32 = 32"
| "uintBits KUint64 = 64"

fun floatBits :: "floatKind \<Rightarrow> nat" where
  "floatBits KFloat32 = 32"
| "floatBits KFloat64 = 64"

text \<open>
  A struct field declaration \<^verbatim>\<open>reflect.StructField\<close>: its \<^verbatim>\<open>Name\<close>, its \<^verbatim>\<open>PkgPath\<close>
  (empty exactly for an exported field), the value of its \<^verbatim>\<open>env\<close> tag
  (\<^verbatim>\<open>Tag.Get("env")\<close>, empty when there is none) and its type.
\<close>

datatype gotype =
    TInvalid
  | TBool
  | TString
  | TInt intKind
  | TDuration
  | TUint uintKind
  | TFloat floatKind
  | TSlice gotype
  | TMap
  | TPtr gotype
  | TStruct string "fdecl list"
and fdecl = FDecl (dname: string) (dpkgPath: string) (denv: string) (dtype: gotype)

text \<open>
  \<open>Invalid\<close> is the zero \<^verbatim>\<open>reflect.Value\<close> (what \<^verbatim>\<open>reflect.ValueOf(nil)\<close> returns).
  \<open>VDuration\<close> is an \<^verbatim>\<open>int64\<close> whose type is \<^verbatim>\<open>time.Duration\<close>. A float is kept as its
  IEEE-754 bit pattern. \<open>VPtr t None\<close> is the nil pointer of type \<^verbatim>\<open>*t\<close>.
\<close>

datatype val =
    Invalid
  | VBool bool
  | VString string
  | VInt intKind int
  | VDuration int
  | VUint uintKind nat
  | VFloat floatKind "64 word"
  | VSlice gotype "val list"
  | VMap "(string \<times> string) list"
  | VPtr gotype "val option"
  | VStruct string "field list"
and field = SField (fname: string) (pkgPath: string) (envTag: string) (fval: val)

fun setFval :: "field \<Rightarrow> val \<Rightarrow> field" where
  "setFval (SField n p e _) v = SField n p e v"

fun typeOf :: "val \<Rightarrow> gotype"
  and declOf :: "field \<Rightarrow> fdecl"
  and declsOf :: "field list \<Rightarrow> fdecl list" where
  "typeOf Invalid = TInvalid"
| "typeOf (VBool _) = TBool"
| "typeOf (VString _) = TString"
| "typeOf (VInt k _) = TInt k"
| "typeOf (VDuration _) = TDuration"
| "typeOf (VUint k _) = TUint k"
| "typeOf (VFloat k _) = TFloat k"
| "typeOf (VSlice t _) = TSlice t"
| "typeOf (VMap _) = TMap"
| "typeOf (VPtr t _) = TPtr t"
| "typeOf (VStruct n fs) = TStruct n (declsOf fs)"
| "declOf (SField n p e v) = FDecl n p e (typeOf v)"
| "declsOf [] = []"
| "declsOf (f # fs) = declOf f # declsOf fs"

text \<open>The zero value of a type, as \<^verbatim>\<open>reflect.New\<close> allocates it.\<close>

fun zero :: "gotype \<Rightarrow> val"
  and zeroField :: "fdecl \<Rightarrow> field"
  and zeroFields :: "fdecl list \<Rightarrow> field list" where
  "zero TInvalid = Invalid"
| "zero TBool = VBool False"
| "zero TString = VString []"
| "zero (TInt k) = VInt k 0"
| "zero TDuration = VDuration 0"
| "zero (TUint k) = VUint k 0"
| "zero (TFloat k) = VFloat k 0"
| "zero (TSlice t) = VSlice t []"
| "zero TMap = VMap []"
| "zero (TPtr t) = VPtr t None"
| "zero (TStruct n ds) = VStruct n (zeroFields ds)"
| "zeroField (FDecl n p e t) = SField n p e (zero t)"
| "zeroFields [] = []"
| "zeroFields (d # ds) = zeroField d # zeroFields ds"

text \<open>
  Well-typedness: what Go's static typing guarantees of every value. A pointer's pointee
  and a slice's elements have the declared type.
\<close>

fun wt :: "val \<Rightarrow> bool"
  and wtField :: "field \<Rightarrow> bool"
  and wtFields :: "field list \<Rightarrow> bool"
  and wtElems :: "gotype \<Rightarrow> val list \<Rightarrow> bool" where
  "wt Invalid = False"
| "wt (VBool _) = True"
| "wt (VString _) = True"
| "wt (VInt _ _) = True"
| "wt (VDuration _) = True"
| "wt (VUint _ _) = True"
| "wt (VFloat _ _) = True"
| "wt (VSlice t xs) = wtElems t xs"
| "wt (VMap _) = True"
| "wt (VPtr t None) = True"
| "wt (VPtr t (Some v)) = (typeOf v = t \<and> wt v)"
| "wt (VStruct n fs) = wtFields fs"
| "wtField (SField n p e v) = wt v"
| "wtFields [] = True"
| "wtFields (f # fs) = (wtField f \<and> wtFields fs)"
| "wtElems t [] = True"
| "wtElems t (x # xs) = (typeOf x = t \<and> wt x \<and> wtElems t xs)"

text \<open>
  The traversal measure: the nesting of structs and pointers that a walk through a value
  of this type, or through this value, can meet.
\<close>

fun tweight :: "gotype \<Rightarrow> nat"
  and dweight :: "fdecl \<Rightarrow> nat"
  and dsweight :: "fdecl list \<Rightarrow> nat" where
  "tweight (TPtr t) = Suc (tweight t)"
| "tweight (TStruct n ds) = Suc (dsweight ds)"
| "tweight TInvalid = 0"
| "tweight TBool = 0"
| "tweight TString = 0"
| "tweight (TInt _) = 0"
| "tweight TDuration = 0"
| "tweight (TUint _) = 0"
| "tweight (TFloat _) = 0"
| "tweight (TSlice _) = 0"
| "tweight TMap = 0"
| "dweight (FDecl n p e t) = Suc (tweight t)"
| "dsweight [] = 0"
| "dsweight (d # ds) = dweight d + dsweight ds"

fun weight :: "val \<Rightarrow> nat"
  and fweight :: "field \<Rightarrow> nat"
  and fsweight :: "field list \<Rightarrow> nat" where
  "weight (VPtr t None) = Suc (tweight t)"
| "weight (VPtr t (Some v)) = Suc (max (weight v) (tweight t))"
| "weight (VStruct n fs) = Suc (fsweight fs)"
| "weight Invalid = 0"
| "weight (VBool _) = 0"
| "weight (VString _) = 0"
| "weight (VInt _ _) = 0"
| "weight (VDuration _) = 0"
| "weight (VUint _ _) = 0"
| "weight (VFloat _ _) = 0"
| "weight (VSlice _ _) = 0"
| "weight (VMap _) = 0"
| "fweight (SField n p e v) = Suc (weight v)"
| "fsweight [] = 0"
| "fsweight (f # fs) = fweight f + fsweight fs"

lemma tweight_typeOf_le:
  "tweight (typeOf v) \<le> weight v"
  "dweight (declOf f) \<le> fweight f"
  "dsweight (declsOf fs) \<le> fsweight fs"
proof (induction v and f and fs rule: typeOf_declOf_declsOf.induct)
  case (10 t p)
  then show ?case by (cases p) auto
qed auto

lemma weight_wt_le:
  "wt v \<Longrightarrow> weight v \<le> tweight (typeOf v)"
  "wtField f \<Longrightarrow> fweight f \<le> dweight (declOf f)"
  "wtFields fs \<Longrightarrow> fsweight fs \<le> dsweight (declsOf fs)"
  "wtElems t xs \<Longrightarrow> True"
  by (induction v and f and fs and t xs rule: wt_wtField_wtFields_wtElems.induct) auto

lemma typeOf_zero:
  "typeOf (zero t) = t"
  "declOf (zeroField d) = d"
  "declsOf (zeroFields ds) = ds"
  by (induction t and d and ds rule: zero_zeroField_zeroFields.induct) auto

lemma weight_zero:
  "weight (zero t) = tweight t"
  "fweight (zeroField d) = dweight d"
  "fsweight (zeroFields ds) = dsweight ds"
  by (induction t and d and ds rule: zero_zeroField_zeroFields.induct) auto


section \<open>Errors\<close>

text \<open>
  One constructor per \<^verbatim>\<open>fmt.Errorf\<close> of the package. A \<^verbatim>\<open>%w\<close> verb keeps the wrapped
  error as an argument, the other verbs keep their operand.
  \<^item> \<open>ConfigNotPointer\<close>: "config must be a non-nil pointer to a struct"
  \<^item> \<open>CfgNotStruct\<close>: "cfg must point to a struct"
  \<^item> \<open>ConfigNotStruct\<close>: "config must point to a struct"
  \<^item> \<open>ReadError f e\<close>: "unable to read configuration file: f, error: e"
  \<^item> \<open>ParseError f e\<close>: "unable to parse configuration file: f, error: e"
  \<^item> \<open>InvalidEnv k p e\<close>: "invalid value for env k (p): e"
  \<^item> \<open>NotSettable\<close>: "field is not settable"
  \<^item> \<open>ExpectedBool r\<close>: "expected bool, got r", and likewise the other \<open>Expected\<close>
  \<^item> \<open>UnsupportedSlice t\<close>: "unsupported slice type t"
  \<^item> \<open>UnsupportedField t\<close>: "unsupported field type t"
  \<^item> \<open>VerifyError p e\<close>: "p: e"
  \<^item> \<open>Errorf m\<close>: the message \<open>m\<close> of a validator; \<open>Wrap m e\<close>: "m: e"
  \<^item> \<open>External m\<close>: an error of the standard library or the operating system
  \<^item> \<open>NilDereference\<close>: the run-time panic of a nil pointer dereference
\<close>

datatype error =
    ConfigNotPointer
  | CfgNotStruct
  | ConfigNotStruct
  | ReadError string error
  | ParseError string error
  | InvalidEnv string string error
  | NotSettable
  | ExpectedBool string
  | ExpectedDuration string
  | ExpectedInteger string
  | ExpectedUnsigned string
  | ExpectedFloat string
  | UnsupportedSlice gotype
  | UnsupportedField gotype
  | VerifyError string error
  | Errorf string
  | Wrap string error
  | External string
  | NilDereference

section \<open>The standard library\<close>

text \<open>
  What the package calls outside itself. The environment, the file system, the YAML
  decoder, the network and the parsers of floating point and duration literals are
  parameters of the model, collected in \<open>world\<close>; a world is fixed during a call.
  \<^item> \<open>LookupEnv\<close>: \<^verbatim>\<open>os.LookupEnv\<close>
  \<^item> \<open>ReadFile\<close>: \<^verbatim>\<open>os.ReadFile\<close>
  \<^item> \<open>Unmarshal\<close>: \<^verbatim>\<open>yaml.Unmarshal\<close>, from the bytes and the target to the filled target
  \<^item> \<open>ParseFloat\<close>: \<^verbatim>\<open>strconv.ParseFloat\<close>, by bit size
  \<^item> \<open>ParseDuration\<close>: \<^verbatim>\<open>time.ParseDuration\<close>, in nanoseconds
  \<^item> \<open>SplitHostPort\<close>: the error of \<^verbatim>\<open>net.SplitHostPort\<close>, if any
  \<^item> \<open>LookupHost\<close>: \<^verbatim>\<open>net.LookupHost\<close>
  \<^item> \<open>HttpGet\<close>: the body of \<^verbatim>\<open>client.Get\<close>, \<open>None\<close> when the request fails
  \<^item> \<open>ParseIP\<close>: whether \<^verbatim>\<open>net.ParseIP\<close> returns an address
  \<^item> \<open>EncodeValues\<close>: \<^verbatim>\<open>url.Values.Encode\<close> of the collected parameters
\<close>

record world =
  LookupEnv :: "string \<Rightarrow> string option"
  ReadFile :: "string \<Rightarrow> error + string"
  Unmarshal :: "string \<Rightarrow> val \<Rightarrow> error option \<times> val"
  ParseFloat :: "string \<Rightarrow> nat \<Rightarrow> 64 word option"
  ParseDuration :: "string \<Rightarrow> int option"
  SplitHostPort :: "string \<Rightarrow> error option"
  LookupHost :: "string \<Rightarrow> error + string list"
  HttpGet :: "string \<Rightarrow> string option"
  ParseIP :: "string \<Rightarrow> bool"
  EncodeValues :: "(string \<times> string) list \<Rightarrow> string"

text \<open>\<^verbatim>\<open>strconv.ParseBool\<close>.\<close>

definition ParseBool :: "string \<Rightarrow> bool option" where
  "ParseBool s =
     (if s \<in> set [''1'', ''t'', ''T'', ''TRUE'', ''true'', ''True''] then Some True
      else if s \<in> set [''0'', ''f'', ''F'', ''FALSE'', ''false'', ''False''] then Some False
      else None)"

text \<open>
  \<^verbatim>\<open>strconv.ParseUint(s, 10, bits)\<close> and \<^verbatim>\<open>strconv.ParseInt(s, 10, bits)\<close>: in base 10
  the digits are \<^verbatim>\<open>0\<close> to \<^verbatim>\<open>9\<close> with no underscore, \<^verbatim>\<open>ParseInt\<close> takes one leading sign,
  and a value outside the range of the bit size is an error.
\<close>

definition isDigit :: "char \<Rightarrow> bool" where
  "isDigit c = (48 \<le> (of_char c :: nat) \<and> (of_char c :: nat) \<le> 57)"

definition decimal :: "string \<Rightarrow> nat option" where
  "decimal s =
     (if s = [] \<or> \<not> list_all isDigit s then None
      else Some (foldl (\<lambda>n c. 10 * n + (of_char c - 48)) 0 s))"

definition ParseUint :: "string \<Rightarrow> nat \<Rightarrow> nat option" where
  "ParseUint s bits =
     (case decimal s of
        None \<Rightarrow> None
      | Some n \<Rightarrow> if n < 2 ^ bits then Some n else None)"

definition ParseInt :: "string \<Rightarrow> nat \<Rightarrow> int option" where
  "ParseInt s bits =
     (case s of
        [] \<Rightarrow> None
      | c # cs \<Rightarrow>
          (let neg = (c = CHR ''-'');
               ds = (if c = CHR ''+'' \<or> c = CHR ''-'' then cs else s)
           in case decimal ds of
                None \<Rightarrow> None
              | Some n \<Rightarrow>
                  if \<not> neg \<and> n \<ge> 2 ^ (bits - 1) then None
                  else if neg \<and> n > 2 ^ (bits - 1) then None
                  else Some (if neg then - int n else int n)))"

text \<open>
  \<^verbatim>\<open>strings.TrimSpace\<close> removes the leading and trailing white space runes:
  the six ASCII ones and, in UTF-8, U+0085, U+00A0, U+1680, U+2000 to U+200A, U+2028,
  U+2029, U+202F, U+205F and U+3000. \<open>spaceLen bs\<close> is the width of the white space rune
  that the bytes \<open>bs\<close> start with (0 if none), \<open>spaceLenRev\<close> the same for the rune that
  the reversed bytes end with.
\<close>

definition asciiSpace :: "nat \<Rightarrow> bool" where
  "asciiSpace c = (c = 9 \<or> c = 10 \<or> c = 11 \<or> c = 12 \<or> c = 13 \<or> c = 32)"

definition spaceRunes :: "nat list list" where
  "spaceRunes =
     [[194, 133], [194, 160], [225, 154, 128]] @
     map (\<lambda>d. [226, 128, d]) [128 ..< 139] @
     [[226, 128, 168], [226, 128, 169], [226, 128, 175], [226, 129, 159], [227, 128, 128]]"

definition spaceLen :: "nat list \<Rightarrow> nat" where
  "spaceLen bs =
     (case bs of
        [] \<Rightarrow> 0
      | c # _ \<Rightarrow>
          if asciiSpace c then 1
          else (case filter (\<lambda>r. take (length r) bs = r) spaceRunes of
                  [] \<Rightarrow> 0
                | r # _ \<Rightarrow> length r))"

definition spaceLenRev :: "nat list \<Rightarrow> nat" where
  "spaceLenRev bs =
     (case bs of
        [] \<Rightarrow> 0
      | c # _ \<Rightarrow>
          if asciiSpace c then 1
          else (case filter (\<lambda>r. take (length r) bs = rev r) spaceRunes of
                  [] \<Rightarrow> 0
                | r # _ \<Rightarrow> length r))"

lemma first_match_le:
  assumes "\<And>r. P r \<Longrightarrow> length r \<le> n"
  shows "(case filter P rs of [] \<Rightarrow> 0 | r # _ \<Rightarrow> length r) \<le> (n::nat)"
proof (cases "filter P rs")
  case Nil
  then show ?thesis by simp
next
  case (Cons r rest)
  then have "r \<in> set (filter P rs)" by simp
  then have "P r" by simp
  with assms Cons show ?thesis by simp
qed

lemma take_eq_length_le: "take (length r) bs = r' \<Longrightarrow> length r' = length r \<Longrightarrow> length r \<le> length bs"
proof -
  assume a: "take (length r) bs = r'" and b: "length r' = length r"
  have "length (take (length r) bs) = length r" using a b by simp
  then show ?thesis by simp
qed

lemma spaceLen_le: "spaceLen bs \<le> length bs"
proof (cases bs)
  case Nil
  then show ?thesis by (simp add: spaceLen_def)
next
  case (Cons c cs)
  have "(case filter (\<lambda>r. take (length r) bs = r) spaceRunes of [] \<Rightarrow> 0 | r # _ \<Rightarrow> length r)
          \<le> length bs"
    by (rule first_match_le) (rule take_eq_length_le, assumption, simp)
  then show ?thesis
    using Cons by (simp add: spaceLen_def)
qed

lemma spaceLenRev_le: "spaceLenRev bs \<le> length bs"
proof (cases bs)
  case Nil
  then show ?thesis by (simp add: spaceLenRev_def)
next
  case (Cons c cs)
  have "(case filter (\<lambda>r. take (length r) bs = rev r) spaceRunes of [] \<Rightarrow> 0 | r # _ \<Rightarrow> length r)
          \<le> length bs"
    by (rule first_match_le) (rule take_eq_length_le, assumption, simp)
  then show ?thesis
    using Cons by (simp add: spaceLenRev_def)
qed

function trimLeft :: "string \<Rightarrow> string" where
  "trimLeft s =
     (if spaceLen (map of_char s) = 0 then s
      else trimLeft (drop (spaceLen (map of_char s)) s))"
  by pat_completeness auto
termination
proof (relation "measure length")
  fix s :: string
  assume "spaceLen (map of_char s) \<noteq> 0"
  moreover have "spaceLen (map of_char s) \<le> length s"
    using spaceLen_le [of "map of_char s"] by simp
  ultimately show "(drop (spaceLen (map of_char s)) s, s) \<in> measure length"
    by simp
qed simp

function trimRightRev :: "string \<Rightarrow> string" where
  "trimRightRev s =
     (if spaceLenRev (map of_char s) = 0 then s
      else trimRightRev (drop (spaceLenRev (map of_char s)) s))"
  by pat_completeness auto
termination
proof (relation "measure length")
  fix s :: string
  assume "spaceLenRev (map of_char s) \<noteq> 0"
  moreover have "spaceLenRev (map of_char s) \<le> length s"
    using spaceLenRev_le [of "map of_char s"] by simp
  ultimately show "(drop (spaceLenRev (map of_char s)) s, s) \<in> measure length"
    by simp
qed simp

declare trimLeft.simps [simp del] trimRightRev.simps [simp del]

definition TrimSpace :: "string \<Rightarrow> string" where
  "TrimSpace s = rev (trimRightRev (rev (trimLeft s)))"

text \<open>\<^verbatim>\<open>strings.Split(s, ",")\<close>: one more part than there are commas.\<close>

fun Split :: "string \<Rightarrow> string list" where
  "Split [] = [[]]"
| "Split (c # cs) =
     (if c = CHR '','' then [] # Split cs
      else (case Split cs of
              [] \<Rightarrow> [[c]]
            | p # ps \<Rightarrow> (c # p) # ps))"


section \<open>The override pass\<close>

text \<open>
  Every function that mutates the tree in place returns the tree as it leaves it, also
  when it fails. The flag \<open>addr\<close> is \<^verbatim>\<open>CanAddr\<close>: false for \<^verbatim>\<open>reflect.ValueOf(cfg)\<close> itself,
  true behind a pointer, and a field has it from its struct. The walks never pass
  through an unexported field, so no value is read-only and \<^verbatim>\<open>CanInterface\<close> holds
  throughout; \<^verbatim>\<open>CanSet\<close> is then \<^verbatim>\<open>CanAddr\<close> of a valid value.
\<close>

definition canSet :: "bool \<Rightarrow> val \<Rightarrow> bool" where
  "canSet addr v = (addr \<and> v \<noteq> Invalid)"

function setValueFromEnv :: "world \<Rightarrow> bool \<Rightarrow> val \<Rightarrow> string \<Rightarrow> error option \<times> val" where
  "setValueFromEnv W addr fld raw =
     (if \<not> canSet addr fld then (Some NotSettable, fld)
      else case fld of
        VPtr t p \<Rightarrow>
          (let elem = (case p of None \<Rightarrow> zero t | Some v \<Rightarrow> v);
               r = setValueFromEnv W True elem raw
           in (fst r, VPtr t (Some (snd r))))
      | VString _ \<Rightarrow> (None, VString raw)
      | VBool _ \<Rightarrow>
          (case ParseBool raw of
             None \<Rightarrow> (Some (ExpectedBool raw), fld)
           | Some b \<Rightarrow> (None, VBool b))
      | VDuration _ \<Rightarrow>
          (case ParseDuration W raw of
             None \<Rightarrow> (Some (ExpectedDuration raw), fld)
           | Some d \<Rightarrow> (None, VDuration d))
      | VInt k _ \<Rightarrow>
          (case ParseInt raw (intBits k) of
             None \<Rightarrow> (Some (ExpectedInteger raw), fld)
           | Some i \<Rightarrow> (None, VInt k i))
      | VUint k _ \<Rightarrow>
          (case ParseUint raw (uintBits k) of
             None \<Rightarrow> (Some (ExpectedUnsigned raw), fld)
           | Some n \<Rightarrow> (None, VUint k n))
      | VFloat k _ \<Rightarrow>
          (case ParseFloat W raw (floatBits k) of
             None \<Rightarrow> (Some (ExpectedFloat raw), fld)
           | Some x \<Rightarrow> (None, VFloat k x))
      | VSlice t _ \<Rightarrow>
          (if t \<noteq> TString then (Some (UnsupportedSlice (TSlice t)), fld)
           else if length (TrimSpace raw) = 0 then (None, VSlice t [])
           else (None, VSlice t (map (\<lambda>part. VString (TrimSpace part)) (Split raw))))
      | _ \<Rightarrow> (Some (UnsupportedField (typeOf fld)), fld))"
  by pat_completeness auto
termination
proof (relation "measure (\<lambda>(W, addr, fld, raw). weight fld)")
  fix W :: world and addr :: bool and fld :: val and raw :: string
    and t :: gotype and p :: "val option" and elem :: val
  assume "fld = VPtr t p" and "elem = (case p of None \<Rightarrow> zero t | Some v \<Rightarrow> v)"
  then show "((W, True, elem, raw), (W, addr, fld, raw))
      \<in> measure (\<lambda>(W, addr, fld, raw). weight fld)"
    by (cases p) (simp_all add: weight_zero)
qed simp

declare setValueFromEnv.simps [simp del]

lemma weight_setValueFromEnv:
  "weight (snd (setValueFromEnv W addr fld raw)) \<le> weight fld"
proof (induction W addr fld raw rule: setValueFromEnv.induct)
  case (1 W addr fld raw)
  show ?case
  proof (cases "canSet addr fld")
    case False
    then show ?thesis by (subst setValueFromEnv.simps) simp
  next
    case True
    show ?thesis
    proof (cases fld)
      case (VPtr t p)
      let ?elem = "case p of None \<Rightarrow> zero t | Some v \<Rightarrow> v"
      have ih: "weight (snd (setValueFromEnv W True ?elem raw)) \<le> weight ?elem"
        using "1.IH" [OF _ VPtr refl] True by simp
      have "weight ?elem \<le> weight fld"
        using VPtr by (cases p) (simp_all add: weight_zero)
      moreover have "Suc (max (weight (snd (setValueFromEnv W True ?elem raw))) (tweight t))
          \<le> weight fld"
        using ih VPtr by (cases p) (simp_all add: weight_zero)
      ultimately show ?thesis
        using True VPtr by (subst setValueFromEnv.simps) (simp add: Let_def)
    qed (use True in \<open>subst setValueFromEnv.simps, simp split: option.splits\<close>)+
  qed
qed

text \<open>
  The body of the loop over the fields, up to the recursive call: the path of the field,
  and the lookup and coercion of its \<^verbatim>\<open>env\<close> binding.
\<close>

definition joinPath :: "string \<Rightarrow> string \<Rightarrow> string" where
  "joinPath path name = (if length path = 0 then name else path @ ''.'' @ name)"

definition overrideField :: "world \<Rightarrow> bool \<Rightarrow> field \<Rightarrow> string \<Rightarrow> error option \<times> val" where
  "overrideField W addr f fieldPath =
     (let envName = envTag f in
      if length envName > 0 then
        (case LookupEnv W envName of
           Some envValue \<Rightarrow>
             (case setValueFromEnv W addr (fval f) envValue of
                (Some err, v) \<Rightarrow> (Some (InvalidEnv envName fieldPath err), v)
              | (None, v) \<Rightarrow> (None, v))
         | None \<Rightarrow> (None, fval f))
      else (None, fval f))"

lemma weight_overrideField:
  "weight (snd (overrideField W addr f fieldPath)) \<le> weight (fval f)"
proof -
  have "weight (snd (setValueFromEnv W addr (fval f) raw)) \<le> weight (fval f)" for raw
    by (rule weight_setValueFromEnv)
  then have "setValueFromEnv W addr (fval f) raw = (e, v) \<Longrightarrow> weight v \<le> weight (fval f)"
    for raw e v
    by (metis snd_conv)
  then show ?thesis
    by (auto simp: overrideField_def Let_def split: option.splits prod.splits)
qed

lemma weight_fval_less: "weight (fval f) < fweight f"
  by (cases f) simp

function (sequential) applyEnvOverridesValue ::
    "world \<Rightarrow> bool \<Rightarrow> val \<Rightarrow> string \<Rightarrow> error option \<times> val"
  and applyEnvFields ::
    "world \<Rightarrow> bool \<Rightarrow> string \<Rightarrow> field list \<Rightarrow> error option \<times> field list" where
  "applyEnvOverridesValue W addr (VPtr t None) path = (None, VPtr t None)"
| "applyEnvOverridesValue W addr (VPtr t (Some u)) path =
     (let r = applyEnvOverridesValue W True u path in (fst r, VPtr t (Some (snd r))))"
| "applyEnvOverridesValue W addr (VStruct n fs) path =
     (let r = applyEnvFields W addr path fs in (fst r, VStruct n (snd r)))"
| "applyEnvOverridesValue W addr v path = (None, v)"
| "applyEnvFields W addr path [] = (None, [])"
| "applyEnvFields W addr path (f # rest) =
     (if length (pkgPath f) > 0 then
        (let r = applyEnvFields W addr path rest in (fst r, f # snd r))
      else
        (let fieldPath = joinPath path (fname f);
             o1 = overrideField W addr f fieldPath
         in case fst o1 of
              Some err \<Rightarrow> (Some err, setFval f (snd o1) # rest)
            | None \<Rightarrow>
                (let o2 = applyEnvOverridesValue W addr (snd o1) fieldPath
                 in case fst o2 of
                      Some err \<Rightarrow> (Some err, setFval f (snd o2) # rest)
                    | None \<Rightarrow>
                        (let r = applyEnvFields W addr path rest
                         in (fst r, setFval f (snd o2) # snd r)))))"
  by pat_completeness auto
termination
proof (relation "measure (\<lambda>x. case x of
          Inl (W, addr, v, path) \<Rightarrow> weight v
        | Inr (W, addr, path, fs) \<Rightarrow> fsweight fs)")
  fix W :: world and addr :: bool and path fieldPath :: string and f :: field
    and rest :: "field list" and o1 :: "error option \<times> val"
  assume "o1 = overrideField W addr f fieldPath"
  then have "weight (snd o1) < fweight f"
    using weight_overrideField [of W addr f fieldPath] weight_fval_less [of f] by simp
  then show "(Inl (W, addr, snd o1, fieldPath), Inr (W, addr, path, f # rest))
      \<in> measure (\<lambda>x. case x of
          Inl (W, addr, v, path) \<Rightarrow> weight v
        | Inr (W, addr, path, fs) \<Rightarrow> fsweight fs)"
    by simp
next
  fix W :: world and addr :: bool and path :: string and f :: field and rest :: "field list"
  have "0 < fweight f" by (cases f) simp
  then show "(Inr (W, addr, path, rest), Inr (W, addr, path, f # rest))
      \<in> measure (\<lambda>x. case x of
          Inl (W, addr, v, path) \<Rightarrow> weight v
        | Inr (W, addr, path, fs) \<Rightarrow> fsweight fs)"
    by simp
next
  fix W :: world and addr :: bool and path :: string and f :: field and rest :: "field list"
  have "0 < fweight f" by (cases f) simp
  then show "(Inr (W, addr, path, rest), Inr (W, addr, path, f # rest))
      \<in> measure (\<lambda>x. case x of
          Inl (W, addr, v, path) \<Rightarrow> weight v
        | Inr (W, addr, path, fs) \<Rightarrow> fsweight fs)"
    by simp
qed simp_all

definition applyEnvOverrides :: "world \<Rightarrow> val \<Rightarrow> error option \<times> val" where
  "applyEnvOverrides W cfg = applyEnvOverridesValue W False cfg []"


text \<open>
  What a failed coercion leaves of a field: \<^verbatim>\<open>setValueFromEnv\<close> allocates a nil pointer
  before it coerces into the pointee, so every nil pointer on the way to the value is
  left pointing to a zero value.
\<close>

function allocated :: "val \<Rightarrow> val" where
  "allocated v =
     (case v of
        VPtr t p \<Rightarrow> VPtr t (Some (allocated (case p of None \<Rightarrow> zero t | Some u \<Rightarrow> u)))
      | _ \<Rightarrow> v)"
  by pat_completeness auto
termination
proof (relation "measure weight")
  fix v :: val and t :: gotype and p :: "val option"
  assume "v = VPtr t p"
  then show "(case p of None \<Rightarrow> zero t | Some u \<Rightarrow> u, v) \<in> measure weight"
    by (cases p) (simp_all add: weight_zero)
qed simp

declare allocated.simps [simp del]

text \<open>
  The override bindings of a tree: the \<^verbatim>\<open>env\<close> tags of the fields of its structs.
\<close>

fun bindingsOf :: "val \<Rightarrow> string list"
  and bindingsOfField :: "field \<Rightarrow> string list"
  and bindingsOfFields :: "field list \<Rightarrow> string list" where
  "bindingsOf (VPtr t (Some u)) = bindingsOf u"
| "bindingsOf (VStruct n fs) = bindingsOfFields fs"
| "bindingsOf (VPtr t None) = []"
| "bindingsOf Invalid = []"
| "bindingsOf (VBool _) = []"
| "bindingsOf (VString _) = []"
| "bindingsOf (VInt _ _) = []"
| "bindingsOf (VDuration _) = []"
| "bindingsOf (VUint _ _) = []"
| "bindingsOf (VFloat _ _) = []"
| "bindingsOf (VSlice _ _) = []"
| "bindingsOf (VMap _) = []"
| "bindingsOfField (SField n p e v) = (if length e > 0 then [e] else []) @ bindingsOf v"
| "bindingsOfFields [] = []"
| "bindingsOfFields (f # fs) = bindingsOfField f @ bindingsOfFields fs"

section \<open>The validation pass\<close>

text \<open>
  The method sets of the program that uses the package: for the name of a struct type
  \<^verbatim>\<open>T\<close>, the method \<^verbatim>\<open>Verify\<close> of \<^verbatim>\<open>*T\<close> if it has one, declared or promoted from an
  embedded field. \<open>body\<close> is what a call does to the struct it is called on and what it
  returns; \<open>onValue\<close> says that \<^verbatim>\<open>T\<close> itself has the method too (a value receiver, or a
  method promoted through an embedded pointer).
\<close>

record verifier =
  onValue :: bool
  body :: "val \<Rightarrow> error option \<times> val"

type_synonym methods = "string \<Rightarrow> verifier option"

text \<open>
  A call of \<^verbatim>\<open>verifier.Verify()\<close> on the struct \<open>v\<close>. Go's typing is part of the call: a
  method cannot change the type of its receiver, so a body that would is not a method
  of any Go program and the struct stays as it is.
\<close>

definition invoke :: "verifier \<Rightarrow> val \<Rightarrow> error option \<times> val" where
  "invoke m v =
     (let r = body m v
      in (fst r, if typeOf (snd r) = typeOf v \<and> wt (snd r) then snd r else v))"

text \<open>
  \<^verbatim>\<open>value.Addr().Interface().(Verifier)\<close> and \<^verbatim>\<open>value.Interface().(Verifier)\<close>: the method
  of the pointer to the type of \<open>v\<close>, and the method of the type of \<open>v\<close> itself.
\<close>

definition ptrMethod :: "methods \<Rightarrow> val \<Rightarrow> verifier option" where
  "ptrMethod M v = (case v of VStruct n _ \<Rightarrow> M n | _ \<Rightarrow> None)"

definition valMethod :: "methods \<Rightarrow> val \<Rightarrow> verifier option" where
  "valMethod M v =
     (case v of
        VStruct n _ \<Rightarrow>
          (case M n of
             Some m \<Rightarrow> if onValue m then Some m else None
           | None \<Rightarrow> None)
      | VPtr (TStruct n _) _ \<Rightarrow> M n
      | _ \<Rightarrow> None)"

text \<open>
  The result of a validation function: the error, the tree as the call leaves it, and
  the paths at which \<^verbatim>\<open>Verify\<close> was called, in the order of the calls. The list of calls
  is not in the Go code; it records the calls the code makes.
\<close>

type_synonym 'a verified = "error option \<times> 'a \<times> string list"

definition runVerify :: "verifier \<Rightarrow> val \<Rightarrow> string \<Rightarrow> val verified" where
  "runVerify m v path =
     (let r = invoke m v
      in (case fst r of
            Some err \<Rightarrow> (Some (VerifyError path err), snd r, [path])
          | None \<Rightarrow> (None, snd r, [path])))"

text \<open>
  \<^verbatim>\<open>callVerify\<close> from its second \<^verbatim>\<open>if\<close> on: the value is no longer dereferenced. The
  method of the pointer is asked for only when the value is addressable (\<open>addrMethod\<close>). A
  \<^verbatim>\<open>Verify\<close> reached through a nil pointer (a field of type \<^verbatim>\<open>**T\<close> whose inner pointer is
  nil) dereferences it and panics.
\<close>

definition addrMethod :: "methods \<Rightarrow> bool \<Rightarrow> val \<Rightarrow> verifier option" where
  "addrMethod M addr v = (if addr then ptrMethod M v else None)"

definition callVerifyHere :: "methods \<Rightarrow> bool \<Rightarrow> val \<Rightarrow> string \<Rightarrow> val verified" where
  "callVerifyHere M addr v path =
     (case addrMethod M addr v of
        Some m \<Rightarrow> runVerify m v path
      | None \<Rightarrow>
          (case valMethod M v of
             Some m \<Rightarrow>
               (case v of
                  VPtr t None \<Rightarrow> (Some NilDereference, v, [path])
                | VPtr t (Some u) \<Rightarrow>
                    (let r = runVerify m u path
                     in (fst r, VPtr t (Some (fst (snd r))), snd (snd r)))
                | _ \<Rightarrow> runVerify m v path)
           | None \<Rightarrow> (None, v, [])))"

definition callVerify :: "methods \<Rightarrow> bool \<Rightarrow> val \<Rightarrow> string \<Rightarrow> val verified" where
  "callVerify M addr v path =
     (case v of
        Invalid \<Rightarrow> (None, v, [])
      | VPtr t None \<Rightarrow> (None, v, [])
      | VPtr t (Some u) \<Rightarrow>
          (case valMethod M v of
             Some m \<Rightarrow>
               (let r = runVerify m u path
                in (fst r, VPtr t (Some (fst (snd r))), snd (snd r)))
           | None \<Rightarrow>
               (let r = callVerifyHere M True u path
                in (fst r, VPtr t (Some (fst (snd r))), snd (snd r))))
      | _ \<Rightarrow> callVerifyHere M addr v path)"

lemma weight_invoke: "weight (snd (invoke m v)) \<le> weight v"
proof (cases "typeOf (snd (body m v)) = typeOf v \<and> wt (snd (body m v))")
  case True
  then have "weight (snd (body m v)) \<le> tweight (typeOf v)"
    using weight_wt_le(1) [of "snd (body m v)"] by simp
  also have "\<dots> \<le> weight v" by (rule tweight_typeOf_le)
  finally show ?thesis using True by (simp add: invoke_def Let_def)
next
  case False
  then show ?thesis by (auto simp: invoke_def Let_def)
qed

lemma weight_runVerify: "weight (fst (snd (runVerify m v path))) \<le> weight v"
  using weight_invoke [of m v] by (simp add: runVerify_def Let_def split: option.splits)

lemma weight_callVerifyHere: "weight (fst (snd (callVerifyHere M addr v path))) \<le> weight v"
proof -
  have "weight (VPtr t (Some (fst (snd (runVerify m u path))))) \<le> weight (VPtr t (Some u))"
    for t m u
    using weight_runVerify [of m u path] by simp
  then show ?thesis
    using weight_runVerify [of _ v path]
    by (auto simp: callVerifyHere_def Let_def simp del: weight.simps
        split: option.splits val.splits)
qed

lemma weight_callVerify: "weight (fst (snd (callVerify M addr v path))) \<le> weight v"
proof -
  have "weight (VPtr t (Some (fst (snd (runVerify m u path))))) \<le> weight (VPtr t (Some u))"
    for t m u
    using weight_runVerify [of m u path] by simp
  moreover have "weight (VPtr t (Some (fst (snd (callVerifyHere M True u path)))))
      \<le> weight (VPtr t (Some u))" for t u
    using weight_callVerifyHere [of M True u path] by simp
  ultimately show ?thesis
    using weight_callVerifyHere [of M addr v path]
    by (auto simp: callVerify_def Let_def simp del: weight.simps
        split: option.splits val.splits)
qed

function (sequential) verifyStructValues ::
    "methods \<Rightarrow> bool \<Rightarrow> val \<Rightarrow> string \<Rightarrow> val verified"
  and verifyFields ::
    "methods \<Rightarrow> bool \<Rightarrow> string \<Rightarrow> field list \<Rightarrow> (field list) verified" where
  "verifyStructValues M addr (VPtr t None) path = (None, VPtr t None, [])"
| "verifyStructValues M addr (VPtr t (Some u)) path =
     (let r = verifyStructValues M True u path
      in (fst r, VPtr t (Some (fst (snd r))), snd (snd r)))"
| "verifyStructValues M addr (VStruct n fs) path =
     (let r = verifyFields M addr path fs
      in (fst r, VStruct n (fst (snd r)), snd (snd r)))"
| "verifyStructValues M addr v path = (None, v, [])"
| "verifyFields M addr path [] = (None, [], [])"
| "verifyFields M addr path (f # rest) =
     (if length (pkgPath f) > 0 then
        (let r = verifyFields M addr path rest in (fst r, f # fst (snd r), snd (snd r)))
      else
        (let fieldPath = joinPath path (fname f);
             c = callVerify M addr (fval f) fieldPath
         in case fst c of
              Some err \<Rightarrow> (Some err, setFval f (fst (snd c)) # rest, snd (snd c))
            | None \<Rightarrow>
                (let s = verifyStructValues M addr (fst (snd c)) fieldPath
                 in case fst s of
                      Some err \<Rightarrow>
                        (Some err, setFval f (fst (snd s)) # rest, snd (snd c) @ snd (snd s))
                    | None \<Rightarrow>
                        (let r = verifyFields M addr path rest
                         in (fst r, setFval f (fst (snd s)) # fst (snd r),
                             snd (snd c) @ snd (snd s) @ snd (snd r))))))"
  by pat_completeness auto
termination
proof (relation "measure (\<lambda>x. case x of
          Inl (M, addr, v, path) \<Rightarrow> weight v
        | Inr (M, addr, path, fs) \<Rightarrow> fsweight fs)")
  fix M :: methods and addr :: bool and path fieldPath :: string and f :: field
    and rest :: "field list" and c :: "val verified"
  assume "c = callVerify M addr (fval f) fieldPath"
  then have "weight (fst (snd c)) < fweight f"
    using weight_callVerify [of M addr "fval f" fieldPath] weight_fval_less [of f] by simp
  then show "(Inl (M, addr, fst (snd c), fieldPath), Inr (M, addr, path, f # rest))
      \<in> measure (\<lambda>x. case x of
          Inl (M, addr, v, path) \<Rightarrow> weight v
        | Inr (M, addr, path, fs) \<Rightarrow> fsweight fs)"
    by simp
next
  fix M :: methods and addr :: bool and path :: string and f :: field and rest :: "field list"
  have "0 < fweight f" by (cases f) simp
  then show "(Inr (M, addr, path, rest), Inr (M, addr, path, f # rest))
      \<in> measure (\<lambda>x. case x of
          Inl (M, addr, v, path) \<Rightarrow> weight v
        | Inr (M, addr, path, fs) \<Rightarrow> fsweight fs)"
    by simp
next
  fix M :: methods and addr :: bool and path :: string and f :: field and rest :: "field list"
  have "0 < fweight f" by (cases f) simp
  then show "(Inr (M, addr, path, rest), Inr (M, addr, path, f # rest))
      \<in> measure (\<lambda>x. case x of
          Inl (M, addr, v, path) \<Rightarrow> weight v
        | Inr (M, addr, path, fs) \<Rightarrow> fsweight fs)"
    by simp
qed simp_all

text \<open>
  \<^verbatim>\<open>verifySubStructs\<close>: the loop that dereferences the pointers of \<^verbatim>\<open>reflect.ValueOf(cfg)\<close>,
  then the walk of the struct it reaches, started at the path \<^verbatim>\<open>value.Type().Name()\<close>.
\<close>

fun verifySubStructsAt :: "methods \<Rightarrow> bool \<Rightarrow> val \<Rightarrow> val verified" where
  "verifySubStructsAt M addr (VPtr t None) = (None, VPtr t None, [])"
| "verifySubStructsAt M addr (VPtr t (Some u)) =
     (let r = verifySubStructsAt M True u
      in (fst r, VPtr t (Some (fst (snd r))), snd (snd r)))"
| "verifySubStructsAt M addr (VStruct n fs) = verifyStructValues M addr (VStruct n fs) n"
| "verifySubStructsAt M addr v = (Some ConfigNotStruct, v, [])"

definition verifySubStructs :: "methods \<Rightarrow> val \<Rightarrow> val verified" where
  "verifySubStructs M cfg = verifySubStructsAt M False cfg"

text \<open>
  Two notions for the proofs about repeated validation. \<open>noVerifier M v\<close>: no struct in
  \<open>v\<close> has a \<^verbatim>\<open>Verify\<close>, so the walk calls nothing in it. \<open>settles M m\<close>: a successful call
  of \<open>m\<close> either leaves a struct that the walk does not change and on which \<open>m\<close> succeeds
  again without changing it, or it is a call on a struct of another type, which \<open>m\<close>
  leaves alone.
\<close>

fun noVerifier :: "methods \<Rightarrow> val \<Rightarrow> bool"
  and noVerifierField :: "methods \<Rightarrow> field \<Rightarrow> bool"
  and noVerifierFields :: "methods \<Rightarrow> field list \<Rightarrow> bool" where
  "noVerifier M (VStruct n fs) = (M n = None \<and> noVerifierFields M fs)"
| "noVerifier M (VPtr t None) = (case t of TStruct n ds \<Rightarrow> M n = None | _ \<Rightarrow> True)"
| "noVerifier M (VPtr t (Some u)) =
     ((case t of TStruct n ds \<Rightarrow> M n = None | _ \<Rightarrow> True) \<and> noVerifier M u)"
| "noVerifier M Invalid = True"
| "noVerifier M (VBool _) = True"
| "noVerifier M (VString _) = True"
| "noVerifier M (VInt _ _) = True"
| "noVerifier M (VDuration _) = True"
| "noVerifier M (VUint _ _) = True"
| "noVerifier M (VFloat _ _) = True"
| "noVerifier M (VSlice _ _) = True"
| "noVerifier M (VMap _) = True"
| "noVerifierField M (SField n p e v) = noVerifier M v"
| "noVerifierFields M [] = True"
| "noVerifierFields M (f # fs) = (noVerifierField M f \<and> noVerifierFields M fs)"

definition settles :: "methods \<Rightarrow> verifier \<Rightarrow> bool" where
  "settles M m =
     (\<forall>u. fst (invoke m u) = None \<longrightarrow>
        ((\<forall>a p. verifyStructValues M a (snd (invoke m u)) p = (None, snd (invoke m u), []))
           \<and> invoke m (snd (invoke m u)) = (None, snd (invoke m u)))
        \<or> (snd (invoke m u) = u \<and> (\<forall>u'. typeOf u' = typeOf u \<longrightarrow> invoke m u' = (None, u'))))"

text \<open>
  Two fields that are the same, or both unexported: the relation between the fields of two
  structs that differ only in what their unexported fields hold.
\<close>

definition sameExported :: "field \<Rightarrow> field \<Rightarrow> bool" where
  "sameExported f g = (f = g \<or> (pkgPath f \<noteq> [] \<and> pkgPath g \<noteq> []))"

section \<open>Read\<close>

definition validateConfigPointer :: "val \<Rightarrow> error option" where
  "validateConfigPointer cfg =
     (case cfg of
        VPtr t (Some u) \<Rightarrow>
          (case u of
             VStruct _ _ \<Rightarrow> None
           | _ \<Rightarrow> Some CfgNotStruct)
      | _ \<Rightarrow> Some ConfigNotPointer)"

text \<open>
  The outcome of \<^verbatim>\<open>Read\<close>: the error it returns, the target as it leaves it, the files it
  asked the operating system for, and the paths at which \<^verbatim>\<open>Verify\<close> was called.
\<close>

record outcome =
  failure :: "error option"
  target :: val
  filesRead :: "string list"
  verifyCalls :: "string list"

definition Read :: "world \<Rightarrow> methods \<Rightarrow> string \<Rightarrow> val \<Rightarrow> outcome" where
  "Read W M filename cfg =
     (case validateConfigPointer cfg of
        Some err \<Rightarrow> \<lparr>failure = Some err, target = cfg, filesRead = [], verifyCalls = []\<rparr>
      | None \<Rightarrow>
          (case ReadFile W filename of
             Inl err \<Rightarrow>
               \<lparr>failure = Some (ReadError filename err), target = cfg,
                filesRead = [filename], verifyCalls = []\<rparr>
           | Inr b \<Rightarrow>
               (case Unmarshal W b cfg of
                  (Some err, cfg1) \<Rightarrow>
                    \<lparr>failure = Some (ParseError filename err), target = cfg1,
                     filesRead = [filename], verifyCalls = []\<rparr>
                | (None, cfg1) \<Rightarrow>
                    (case applyEnvOverrides W cfg1 of
                       (Some err, cfg2) \<Rightarrow>
                         \<lparr>failure = Some err, target = cfg2,
                          filesRead = [filename], verifyCalls = []\<rparr>
                     | (None, cfg2) \<Rightarrow>
                         (let r = verifySubStructs M cfg2
                          in \<lparr>failure = fst r, target = fst (snd r),
                              filesRead = [filename], verifyCalls = snd (snd r)\<rparr>)))))"


section \<open>The configuration sections and their validators\<close>

text \<open>
  The structs of the package as records, and their \<^verbatim>\<open>Verify\<close> methods as functions from
  the struct to the error and the struct as the method leaves it. \<^verbatim>\<open>Params\<close>, a
  \<^verbatim>\<open>map[string]any\<close>, is kept as its entries, each value as \<^verbatim>\<open>%v\<close> prints it.
\<close>

record LoggingSyslogConfig =
  FacilityString :: string
  SeverityString :: string
  priority :: int

record LoggingConfig =
  SyslogEnabled :: bool
  Syslog :: LoggingSyslogConfig

record MySQLDatabase =
  Server :: string
  User :: string
  Password :: string
  DB :: string
  Params :: "(string \<times> string) list"
  ConnectString :: string

record PostgresDatabase =
  Server :: string
  User :: string
  Password :: string
  DB :: string
  Params :: "(string \<times> string) list"
  ConnectString :: string

record RedisConfig =
  Server :: string
  User :: string
  Password :: string
  DatabaseIndex :: string
  MaxIdle :: int
  MaxActive :: int
  IdleTimeout :: int

record SMTPConfig =
  Server :: string
  Port :: int
  User :: string
  Password :: string
  From :: string

record HTTPSessionCookieConfig =
  HashKey :: string
  EncryptKey :: string
  Domain' :: string

record HTTPStaticCertConfig =
  SSLCertFile :: string
  SSLPrivateKeyFile :: string

record HTTPACMEConfig =
  Email :: string
  CADirURL :: string
  DiskCache :: string

record HTTPConfig =
  SSLBindAddr :: string
  BindAddr :: string
  TemplatePath :: string
  ExternalHostName :: "string list"
  SkipHostNameTest :: bool
  Session :: HTTPSessionCookieConfig
  StaticCert :: HTTPStaticCertConfig
  ACME :: HTTPACMEConfig

record Config =
  Logging :: LoggingConfig
  Database :: MySQLDatabase
  Redis :: RedisConfig
  SMTP :: SMTPConfig
  HTTP :: HTTPConfig

text \<open>The facilities and severities of \<^verbatim>\<open>log/syslog\<close>, with the values of its constants.\<close>

definition logFacilityString2Int :: "(string \<times> int) list" where
  "logFacilityString2Int =
     [(''LOG_KERN'', 0), (''LOG_USER'', 8), (''LOG_MAIL'', 16), (''LOG_DAEMON'', 24),
      (''LOG_AUTH'', 32), (''LOG_SYSLOG'', 40), (''LOG_LPR'', 48), (''LOG_NEWS'', 56),
      (''LOG_UUCP'', 64), (''LOG_CRON'', 72), (''LOG_AUTHPRIV'', 80), (''LOG_FTP'', 88),
      (''LOG_LOCAL0'', 128), (''LOG_LOCAL1'', 136), (''LOG_LOCAL2'', 144),
      (''LOG_LOCAL3'', 152), (''LOG_LOCAL4'', 160), (''LOG_LOCAL5'', 168),
      (''LOG_LOCAL6'', 176), (''LOG_LOCAL7'', 184)]"

definition logSeverityString2Int :: "(string \<times> int) list" where
  "logSeverityString2Int =
     [(''LOG_EMERG'', 0), (''LOG_ALERT'', 1), (''LOG_CRIT'', 2), (''LOG_ERR'', 3),
      (''LOG_WARNING'', 4), (''LOG_NOTICE'', 5), (''LOG_INFO'', 6), (''LOG_DEBUG'', 7)]"

definition quoted :: "string \<Rightarrow> string" where
  "quoted s = [CHR 0x27] @ s @ [CHR 0x27]"

definition LoggingConfig_Verify :: "LoggingConfig \<Rightarrow> error option \<times> LoggingConfig" where
  "LoggingConfig_Verify cfg =
     (let s0 = Syslog cfg;
          s1 = (if length (FacilityString s0) = 0
                then s0\<lparr>FacilityString := ''LOG_LOCAL5''\<rparr> else s0);
          s2 = (if length (SeverityString s1) = 0
                then s1\<lparr>SeverityString := ''LOG_INFO''\<rparr> else s1)
      in case map_of logFacilityString2Int (FacilityString s2) of
           None \<Rightarrow>
             (Some (Errorf (''invalid logging facility specified: '' @ quoted (FacilityString s2))),
              cfg\<lparr>Syslog := s2\<rparr>)
         | Some facility \<Rightarrow>
             (case map_of logSeverityString2Int (SeverityString s2) of
                None \<Rightarrow>
                  (Some (Errorf (''invalid logging severity specified: ''
                           @ quoted (SeverityString s2))),
                   cfg\<lparr>Syslog := s2\<rparr>)
              | Some severity \<Rightarrow>
                  (None, cfg\<lparr>Syslog := s2\<lparr>priority := facility OR severity\<rparr>\<rparr>)))"

definition MySQLDatabase_Verify :: "world \<Rightarrow> MySQLDatabase \<Rightarrow> error option \<times> MySQLDatabase" where
  "MySQLDatabase_Verify W cfg =
     (if length (MySQLDatabase.ConnectString cfg) = 0 then
        if length (MySQLDatabase.Password cfg) = 0 then
          (Some (Errorf ''missing Database Password (or DBPASS environment variable)''), cfg)
        else if length (MySQLDatabase.User cfg) = 0 then
          (Some (Errorf ''missing Database User (or DBUSER environment variable)''), cfg)
        else if length (MySQLDatabase.Server cfg) = 0 then
          (Some (Errorf ''missing Database Server (or DBSERVER environment variable)''), cfg)
        else
          (case SplitHostPort W (MySQLDatabase.Server cfg) of
             Some err \<Rightarrow> (Some (Wrap ''database server should specify a port'' err), cfg)
           | None \<Rightarrow>
               (let cfg1 = cfg\<lparr>MySQLDatabase.ConnectString :=
                             MySQLDatabase.User cfg @ '':'' @ MySQLDatabase.Password cfg
                             @ ''@tcp('' @ MySQLDatabase.Server cfg @ '')/''
                             @ MySQLDatabase.DB cfg\<rparr>
                in if length (MySQLDatabase.Params cfg1) > 0 then
                     (None, cfg1\<lparr>MySQLDatabase.ConnectString :=
                              MySQLDatabase.ConnectString cfg1 @ ''?''
                              @ EncodeValues W (MySQLDatabase.Params cfg1)\<rparr>)
                   else (None, cfg1)))
      else (None, cfg))"

definition PostgresDatabase_Verify ::
  "world \<Rightarrow> PostgresDatabase \<Rightarrow> error option \<times> PostgresDatabase" where
  "PostgresDatabase_Verify W cfg =
     (if length (PostgresDatabase.ConnectString cfg) = 0 then
        if length (PostgresDatabase.Password cfg) = 0 then
          (Some (Errorf ''missing Database Password (or DBPASS environment variable)''), cfg)
        else if length (PostgresDatabase.User cfg) = 0 then
          (Some (Errorf ''missing Database User (or DBUSER environment variable)''), cfg)
        else if length (PostgresDatabase.Server cfg) = 0 then
          (Some (Errorf ''missing Database Server (or DBSERVER environment variable)''), cfg)
        else
          (case SplitHostPort W (PostgresDatabase.Server cfg) of
             Some err \<Rightarrow> (Some (Wrap ''database server should specify a port'' err), cfg)
           | None \<Rightarrow>
               (let cfg1 = cfg\<lparr>PostgresDatabase.ConnectString :=
                             ''postgres://'' @ PostgresDatabase.User cfg @ '':''
                             @ PostgresDatabase.Password cfg @ ''@''
                             @ PostgresDatabase.Server cfg @ ''/'' @ PostgresDatabase.DB cfg\<rparr>
                in if length (PostgresDatabase.Params cfg1) > 0 then
                     (None, cfg1\<lparr>PostgresDatabase.ConnectString :=
                              PostgresDatabase.ConnectString cfg1 @ ''?''
                              @ EncodeValues W (PostgresDatabase.Params cfg1)\<rparr>)
                   else (None, cfg1)))
      else (None, cfg))"

definition RedisConfig_Verify :: "RedisConfig \<Rightarrow> error option \<times> RedisConfig" where
  "RedisConfig_Verify cfg =
     (if length (RedisConfig.Server cfg) = 0 then
        (Some (Errorf ''missing Redis Server (or REDISSERVER environment variable)''), cfg)
      else
        (let c1 = (if MaxIdle cfg = 0 then cfg\<lparr>MaxIdle := 3\<rparr> else cfg);
             c2 = (if MaxActive c1 = 0 then c1\<lparr>MaxActive := 32\<rparr> else c1);
             c3 = (if IdleTimeout c2 = 0 then c2\<lparr>IdleTimeout := 60 * 1000000000\<rparr> else c2)
         in (None, c3)))"

text \<open>
  \<^verbatim>\<open>TestExternalHostName\<close>: the loop over the providers keeps in \<open>externalIP\<close> the trimmed
  body of the last answer and stops at the first that is an IP address.
\<close>

definition providers :: "string list" where
  "providers =
     [''https://ipv4.whatismyip.akamai.com'', ''https://ipv4.myexternalip.com/raw'',
      ''https://ipecho.net/plain'', ''https://eth0.me'']"

fun probe :: "world \<Rightarrow> string list \<Rightarrow> string \<Rightarrow> string" where
  "probe W [] externalIP = externalIP"
| "probe W (p # ps) externalIP =
     (case HttpGet W p of
        None \<Rightarrow> probe W ps externalIP
      | Some x \<Rightarrow>
          (let ip = TrimSpace x in if ParseIP W ip then ip else probe W ps ip))"

fun Join :: "string list \<Rightarrow> string \<Rightarrow> string" where
  "Join [] sep = []"
| "Join [x] sep = x"
| "Join (x # y # ys) sep = x @ sep @ Join (y # ys) sep"

definition TestExternalHostName :: "world \<Rightarrow> string \<Rightarrow> error option" where
  "TestExternalHostName W hostname =
     (case LookupHost W hostname of
        Inl err \<Rightarrow> Some err
      | Inr ipAddrs \<Rightarrow>
          (let externalIP = probe W providers []
           in if length externalIP = 0 then
                Some (Errorf ''unable to get external IP from any provider'')
              else if externalIP \<in> set ipAddrs then None
              else Some (Errorf (''external IP '' @ externalIP @ '' doesn'' @ [CHR 0x27]
                     @ ''t match any value in DNS ('' @ Join ipAddrs '', ''
                     @ '') for host name '' @ hostname))))"

definition HTTPConfig_Verify :: "world \<Rightarrow> HTTPConfig \<Rightarrow> error option \<times> HTTPConfig" where
  "HTTPConfig_Verify W cfg =
     (case ExternalHostName cfg of
        [] \<Rightarrow> (Some (Errorf ''missing at least one externalhostname in configuration''), cfg)
      | h # _ \<Rightarrow>
          if length h = 0 then
            (Some (Errorf ''missing at least one externalhostname in configuration''), cfg)
          else
            (case (if \<not> SkipHostNameTest cfg then TestExternalHostName W h else None) of
               Some err \<Rightarrow> (Some (Wrap ''[TestExternalHostName] failed'' err), cfg)
             | None \<Rightarrow>
                 if length (SSLCertFile (StaticCert cfg)) = 0
                    \<or> length (SSLPrivateKeyFile (StaticCert cfg)) = 0 then
                   if length (Email (ACME cfg)) = 0 then
                     (Some (Errorf (''ACME certificates are enabled, but the config is missing ''
                        @ ''http.acme.email value for email address for registration'')), cfg)
                   else if length (DiskCache (ACME cfg)) = 0 then
                     (Some (Errorf (''ACME certificates are enabled, but the config is missing ''
                        @ ''http.acme.diskcache value caching certificates'')), cfg)
                   else (None, cfg)
                 else (None, cfg)))"


section \<open>The sections as reflection sees them\<close>

text \<open>
  The struct declarations of the package, with their \<^verbatim>\<open>env\<close> tags, and for every record
  the struct value that stands for it (\<open>enc\<close>) and the record a struct value stands for
  (\<open>dec\<close>).
\<close>

definition pkg :: string where
  "pkg = ''github.com/JJCinAZ/serverconfig''"

fun mkFields :: "fdecl list \<Rightarrow> val list \<Rightarrow> field list" where
  "mkFields (d # ds) (v # vs) = SField (dname d) (dpkgPath d) (denv d) v # mkFields ds vs"
| "mkFields _ _ = []"

fun mkStruct :: "gotype \<Rightarrow> val list \<Rightarrow> val" where
  "mkStruct (TStruct n ds) vs = VStruct n (mkFields ds vs)"
| "mkStruct _ vs = Invalid"

fun arg :: "val \<Rightarrow> nat \<Rightarrow> val" where
  "arg (VStruct n fs) i = (if i < length fs then fval (fs ! i) else Invalid)"
| "arg _ i = Invalid"

fun strOf :: "val \<Rightarrow> string" where
  "strOf (VString s) = s"
| "strOf _ = []"

fun boolOf :: "val \<Rightarrow> bool" where
  "boolOf (VBool b) = b"
| "boolOf _ = False"

fun intOf :: "val \<Rightarrow> int" where
  "intOf (VInt k i) = i"
| "intOf (VDuration i) = i"
| "intOf _ = 0"

fun strsOf :: "val \<Rightarrow> string list" where
  "strsOf (VSlice t xs) = map strOf xs"
| "strsOf _ = []"

fun entriesOf :: "val \<Rightarrow> (string \<times> string) list" where
  "entriesOf (VMap es) = es"
| "entriesOf _ = []"

definition tLoggingSyslogConfig :: gotype where
  "tLoggingSyslogConfig = TStruct ''LoggingSyslogConfig''
     [FDecl ''FacilityString'' [] [] TString,
      FDecl ''SeverityString'' [] [] TString,
      FDecl ''priority'' pkg [] (TInt KInt)]"

definition tLoggingConfig :: gotype where
  "tLoggingConfig = TStruct ''LoggingConfig''
     [FDecl ''SyslogEnabled'' [] [] TBool,
      FDecl ''Syslog'' [] [] tLoggingSyslogConfig]"

definition databaseFields :: "fdecl list" where
  "databaseFields =
     [FDecl ''Server'' [] ''DBSERVER'' TString,
      FDecl ''User'' [] ''DBUSER'' TString,
      FDecl ''Password'' [] ''DBPASS'' TString,
      FDecl ''DB'' [] ''DBNAME'' TString,
      FDecl ''Params'' [] [] TMap,
      FDecl ''ConnectString'' [] ''DBCONNECT'' TString]"

definition tMySQLDatabase :: gotype where
  "tMySQLDatabase = TStruct ''MySQLDatabase'' databaseFields"

definition tPostgresDatabase :: gotype where
  "tPostgresDatabase = TStruct ''PostgresDatabase'' databaseFields"

definition tRedisConfig :: gotype where
  "tRedisConfig = TStruct ''RedisConfig''
     [FDecl ''Server'' [] ''REDISSERVER'' TString,
      FDecl ''User'' [] ''REDISUSER'' TString,
      FDecl ''Password'' [] ''REDISPASS'' TString,
      FDecl ''DatabaseIndex'' [] [] TString,
      FDecl ''MaxIdle'' [] [] (TInt KInt),
      FDecl ''MaxActive'' [] [] (TInt KInt),
      FDecl ''IdleTimeout'' [] [] TDuration]"

definition tSMTPConfig :: gotype where
  "tSMTPConfig = TStruct ''SMTPConfig''
     [FDecl ''Server'' [] [] TString,
      FDecl ''Port'' [] [] (TInt KInt),
      FDecl ''User'' [] ''SMTPUSER'' TString,
      FDecl ''Password'' [] ''SMTPPASS'' TString,
      FDecl ''From'' [] [] TString]"

definition tHTTPSessionCookieConfig :: gotype where
  "tHTTPSessionCookieConfig = TStruct ''HTTPSessionCookieConfig''
     [FDecl ''HashKey'' [] ''SESSIONHASHKEY'' TString,
      FDecl ''EncryptKey'' [] ''SESSIONENCRYPTKEY'' TString,
      FDecl ''Domain'' [] [] TString]"

definition tHTTPStaticCertConfig :: gotype where
  "tHTTPStaticCertConfig = TStruct ''HTTPStaticCertConfig''
     [FDecl ''SSLCertFile'' [] [] TString,
      FDecl ''SSLPrivateKeyFile'' [] [] TString]"

definition tHTTPACMEConfig :: gotype where
  "tHTTPACMEConfig = TStruct ''HTTPACMEConfig''
     [FDecl ''Email'' [] [] TString,
      FDecl ''CADirURL'' [] [] TString,
      FDecl ''DiskCache'' [] [] TString]"

definition tHTTPConfig :: gotype where
  "tHTTPConfig = TStruct ''HTTPConfig''
     [FDecl ''SSLBindAddr'' [] [] TString,
      FDecl ''BindAddr'' [] [] TString,
      FDecl ''TemplatePath'' [] [] TString,
      FDecl ''ExternalHostName'' [] [] (TSlice TString),
      FDecl ''SkipHostNameTest'' [] [] TBool,
      FDecl ''Session'' [] [] tHTTPSessionCookieConfig,
      FDecl ''StaticCert'' [] [] tHTTPStaticCertConfig,
      FDecl ''ACME'' [] [] tHTTPACMEConfig]"

definition tConfig :: gotype where
  "tConfig = TStruct ''Config''
     [FDecl ''Logging'' [] [] tLoggingConfig,
      FDecl ''Database'' [] [] tMySQLDatabase,
      FDecl ''Redis'' [] [] tRedisConfig,
      FDecl ''SMTP'' [] [] tSMTPConfig,
      FDecl ''HTTP'' [] [] tHTTPConfig]"

definition encLoggingSyslogConfig :: "LoggingSyslogConfig \<Rightarrow> val" where
  "encLoggingSyslogConfig c = mkStruct tLoggingSyslogConfig
     [VString (FacilityString c), VString (SeverityString c), VInt KInt (priority c)]"

definition decLoggingSyslogConfig :: "val \<Rightarrow> LoggingSyslogConfig" where
  "decLoggingSyslogConfig v =
     \<lparr>FacilityString = strOf (arg v 0), SeverityString = strOf (arg v 1),
      priority = intOf (arg v 2)\<rparr>"

definition encLoggingConfig :: "LoggingConfig \<Rightarrow> val" where
  "encLoggingConfig c = mkStruct tLoggingConfig
     [VBool (SyslogEnabled c), encLoggingSyslogConfig (Syslog c)]"

definition decLoggingConfig :: "val \<Rightarrow> LoggingConfig" where
  "decLoggingConfig v =
     \<lparr>SyslogEnabled = boolOf (arg v 0), Syslog = decLoggingSyslogConfig (arg v 1)\<rparr>"

definition encMySQLDatabase :: "MySQLDatabase \<Rightarrow> val" where
  "encMySQLDatabase c = mkStruct tMySQLDatabase
     [VString (MySQLDatabase.Server c), VString (MySQLDatabase.User c),
      VString (MySQLDatabase.Password c), VString (MySQLDatabase.DB c),
      VMap (MySQLDatabase.Params c), VString (MySQLDatabase.ConnectString c)]"

definition decMySQLDatabase :: "val \<Rightarrow> MySQLDatabase" where
  "decMySQLDatabase v =
     \<lparr>MySQLDatabase.Server = strOf (arg v 0), MySQLDatabase.User = strOf (arg v 1),
      MySQLDatabase.Password = strOf (arg v 2), MySQLDatabase.DB = strOf (arg v 3),
      MySQLDatabase.Params = entriesOf (arg v 4),
      MySQLDatabase.ConnectString = strOf (arg v 5)\<rparr>"

definition encPostgresDatabase :: "PostgresDatabase \<Rightarrow> val" where
  "encPostgresDatabase c = mkStruct tPostgresDatabase
     [VString (PostgresDatabase.Server c), VString (PostgresDatabase.User c),
      VString (PostgresDatabase.Password c), VString (PostgresDatabase.DB c),
      VMap (PostgresDatabase.Params c), VString (PostgresDatabase.ConnectString c)]"

definition decPostgresDatabase :: "val \<Rightarrow> PostgresDatabase" where
  "decPostgresDatabase v =
     \<lparr>PostgresDatabase.Server = strOf (arg v 0), PostgresDatabase.User = strOf (arg v 1),
      PostgresDatabase.Password = strOf (arg v 2), PostgresDatabase.DB = strOf (arg v 3),
      PostgresDatabase.Params = entriesOf (arg v 4),
      PostgresDatabase.ConnectString = strOf (arg v 5)\<rparr>"

definition encRedisConfig :: "RedisConfig \<Rightarrow> val" where
  "encRedisConfig c = mkStruct tRedisConfig
     [VString (RedisConfig.Server c), VString (RedisConfig.User c),
      VString (RedisConfig.Password c), VString (DatabaseIndex c),
      VInt KInt (MaxIdle c), VInt KInt (MaxActive c), VDuration (IdleTimeout c)]"

definition decRedisConfig :: "val \<Rightarrow> RedisConfig" where
  "decRedisConfig v =
     \<lparr>RedisConfig.Server = strOf (arg v 0), RedisConfig.User = strOf (arg v 1),
      RedisConfig.Password = strOf (arg v 2), DatabaseIndex = strOf (arg v 3),
      MaxIdle = intOf (arg v 4), MaxActive = intOf (arg v 5),
      IdleTimeout = intOf (arg v 6)\<rparr>"

definition encSMTPConfig :: "SMTPConfig \<Rightarrow> val" where
  "encSMTPConfig c = mkStruct tSMTPConfig
     [VString (SMTPConfig.Server c), VInt KInt (Port c), VString (SMTPConfig.User c),
      VString (SMTPConfig.Password c), VString (From c)]"

definition decSMTPConfig :: "val \<Rightarrow> SMTPConfig" where
  "decSMTPConfig v =
     \<lparr>SMTPConfig.Server = strOf (arg v 0), Port = intOf (arg v 1),
      SMTPConfig.User = strOf (arg v 2), SMTPConfig.Password = strOf (arg v 3),
      From = strOf (arg v 4)\<rparr>"

definition encHTTPSessionCookieConfig :: "HTTPSessionCookieConfig \<Rightarrow> val" where
  "encHTTPSessionCookieConfig c = mkStruct tHTTPSessionCookieConfig
     [VString (HashKey c), VString (EncryptKey c), VString (Domain' c)]"

definition decHTTPSessionCookieConfig :: "val \<Rightarrow> HTTPSessionCookieConfig" where
  "decHTTPSessionCookieConfig v =
     \<lparr>HashKey = strOf (arg v 0), EncryptKey = strOf (arg v 1), Domain' = strOf (arg v 2)\<rparr>"

definition encHTTPStaticCertConfig :: "HTTPStaticCertConfig \<Rightarrow> val" where
  "encHTTPStaticCertConfig c = mkStruct tHTTPStaticCertConfig
     [VString (SSLCertFile c), VString (SSLPrivateKeyFile c)]"

definition decHTTPStaticCertConfig :: "val \<Rightarrow> HTTPStaticCertConfig" where
  "decHTTPStaticCertConfig v =
     \<lparr>SSLCertFile = strOf (arg v 0), SSLPrivateKeyFile = strOf (arg v 1)\<rparr>"

definition encHTTPACMEConfig :: "HTTPACMEConfig \<Rightarrow> val" where
  "encHTTPACMEConfig c = mkStruct tHTTPACMEConfig
     [VString (Email c), VString (CADirURL c), VString (DiskCache c)]"

definition decHTTPACMEConfig :: "val \<Rightarrow> HTTPACMEConfig" where
  "decHTTPACMEConfig v =
     \<lparr>Email = strOf (arg v 0), CADirURL = strOf (arg v 1), DiskCache = strOf (arg v 2)\<rparr>"

definition encHTTPConfig :: "HTTPConfig \<Rightarrow> val" where
  "encHTTPConfig c = mkStruct tHTTPConfig
     [VString (SSLBindAddr c), VString (BindAddr c), VString (TemplatePath c),
      VSlice TString (map VString (ExternalHostName c)), VBool (SkipHostNameTest c),
      encHTTPSessionCookieConfig (Session c), encHTTPStaticCertConfig (StaticCert c),
      encHTTPACMEConfig (ACME c)]"

definition decHTTPConfig :: "val \<Rightarrow> HTTPConfig" where
  "decHTTPConfig v =
     \<lparr>SSLBindAddr = strOf (arg v 0), BindAddr = strOf (arg v 1),
      TemplatePath = strOf (arg v 2), ExternalHostName = strsOf (arg v 3),
      SkipHostNameTest = boolOf (arg v 4),
      Session = decHTTPSessionCookieConfig (arg v 5),
      StaticCert = decHTTPStaticCertConfig (arg v 6),
      ACME = decHTTPACMEConfig (arg v 7)\<rparr>"

definition encConfig :: "Config \<Rightarrow> val" where
  "encConfig c = mkStruct tConfig
     [encLoggingConfig (Logging c), encMySQLDatabase (Database c), encRedisConfig (Redis c),
      encSMTPConfig (SMTP c), encHTTPConfig (HTTP c)]"

definition decConfig :: "val \<Rightarrow> Config" where
  "decConfig v =
     \<lparr>Logging = decLoggingConfig (arg v 0), Database = decMySQLDatabase (arg v 1),
      Redis = decRedisConfig (arg v 2), SMTP = decSMTPConfig (arg v 3),
      HTTP = decHTTPConfig (arg v 4)\<rparr>"

text \<open>
  A \<^verbatim>\<open>Verify\<close> with a pointer receiver, as a method on struct values: it runs on the
  struct of its type and leaves any other value alone.
\<close>

definition sectionMethod ::
  "gotype \<Rightarrow> (val \<Rightarrow> 'r) \<Rightarrow> ('r \<Rightarrow> val) \<Rightarrow> ('r \<Rightarrow> error option \<times> 'r) \<Rightarrow> verifier" where
  "sectionMethod T dec enc verify =
     \<lparr>onValue = False,
      body = (\<lambda>v. if typeOf v = T
                  then (let r = verify (dec v) in (fst r, enc (snd r)))
                  else (None, v))\<rparr>"

text \<open>The method sets of the package: the five types that declare \<^verbatim>\<open>Verify\<close>.\<close>

definition packageMethods :: "world \<Rightarrow> methods" where
  "packageMethods W n =
     (if n = ''LoggingConfig'' then
        Some (sectionMethod tLoggingConfig decLoggingConfig encLoggingConfig LoggingConfig_Verify)
      else if n = ''MySQLDatabase'' then
        Some (sectionMethod tMySQLDatabase decMySQLDatabase encMySQLDatabase
                (MySQLDatabase_Verify W))
      else if n = ''PostgresDatabase'' then
        Some (sectionMethod tPostgresDatabase decPostgresDatabase encPostgresDatabase
                (PostgresDatabase_Verify W))
      else if n = ''RedisConfig'' then
        Some (sectionMethod tRedisConfig decRedisConfig encRedisConfig RedisConfig_Verify)
      else if n = ''HTTPConfig'' then
        Some (sectionMethod tHTTPConfig decHTTPConfig encHTTPConfig (HTTPConfig_Verify W))
      else None)"


section \<open>Programs and worlds for the examples\<close>

text \<open>
  A world for the examples: the environment is the given list, every file is empty, and
  the empty YAML document leaves the target as it is; there is no network. No example
  parses a floating point number or a duration, or encodes database parameters.
\<close>

definition exampleWorld :: "(string \<times> string) list \<Rightarrow> world" where
  "exampleWorld env =
     \<lparr>LookupEnv = map_of env,
      ReadFile = (\<lambda>f. Inr []),
      Unmarshal = (\<lambda>b cfg. if b = [] then (None, cfg)
                            else (Some (External ''yaml: document not modelled''), cfg)),
      ParseFloat = (\<lambda>s bits. None),
      ParseDuration = (\<lambda>s. None),
      SplitHostPort = (\<lambda>s. if CHR '':'' \<in> set s then None
                            else Some (External ''missing port in address'')),
      LookupHost = (\<lambda>h. Inl (External ''no such host'')),
      HttpGet = (\<lambda>u. None),
      ParseIP = (\<lambda>s. False),
      EncodeValues = (\<lambda>es. [])\<rparr>"

text \<open>
  A configuration as the package's test \<^verbatim>\<open>TestReadWithDefaultConfig\<close> loads it, with a static
  certificate and the host name test skipped, and the same configuration after the
  validation pass.
\<close>

definition exampleConfig :: Config where
  "exampleConfig =
     \<lparr>Logging = \<lparr>SyslogEnabled = True,
                  Syslog = \<lparr>FacilityString = [], SeverityString = [], priority = 0\<rparr>\<rparr>,
      Database = \<lparr>MySQLDatabase.Server = ''db.local:3306'', MySQLDatabase.User = ''app'',
                   MySQLDatabase.Password = ''from-env'', MySQLDatabase.DB = ''maindb'',
                   MySQLDatabase.Params = [], MySQLDatabase.ConnectString = []\<rparr>,
      Redis = \<lparr>RedisConfig.Server = ''redis.local:6379'', RedisConfig.User = [],
                RedisConfig.Password = [], DatabaseIndex = [], MaxIdle = 0, MaxActive = 0,
                IdleTimeout = 0\<rparr>,
      SMTP = \<lparr>SMTPConfig.Server = ''smtp.local'', Port = 587, SMTPConfig.User = [],
               SMTPConfig.Password = [], From = ''noreply@example.com''\<rparr>,
      HTTP = \<lparr>SSLBindAddr = '':443'', BindAddr = '':80'', TemplatePath = ''./templates'',
               ExternalHostName = [''example.com''], SkipHostNameTest = True,
               Session = \<lparr>HashKey = [], EncryptKey = [], Domain' = []\<rparr>,
               StaticCert = \<lparr>SSLCertFile = ''/tmp/cert.pem'',
                             SSLPrivateKeyFile = ''/tmp/key.pem''\<rparr>,
               ACME = \<lparr>Email = [], CADirURL = [], DiskCache = []\<rparr>\<rparr>\<rparr>"

definition validatedConfig :: Config where
  "validatedConfig =
     exampleConfig
       \<lparr>Logging := \<lparr>SyslogEnabled = True,
                     Syslog = \<lparr>FacilityString = ''LOG_LOCAL5'', SeverityString = ''LOG_INFO'',
                                priority = 174\<rparr>\<rparr>,
        Database := \<lparr>MySQLDatabase.Server = ''db.local:3306'', MySQLDatabase.User = ''app'',
                      MySQLDatabase.Password = ''from-env'', MySQLDatabase.DB = ''maindb'',
                      MySQLDatabase.Params = [],
                      MySQLDatabase.ConnectString = ''app:from-env@tcp(db.local:3306)/maindb''\<rparr>,
        Redis := \<lparr>RedisConfig.Server = ''redis.local:6379'', RedisConfig.User = [],
                   RedisConfig.Password = [], DatabaseIndex = [], MaxIdle = 3, MaxActive = 32,
                   IdleTimeout = 60000000000\<rparr>\<rparr>"

text \<open>
  The types of the package's own tests: \<^verbatim>\<open>readVerifySection\<close>, whose \<^verbatim>\<open>Verify\<close> records that
  it ran and fails on an empty name, \<^verbatim>\<open>readRuntimeSection\<close> with its override bindings,
  \<^verbatim>\<open>readEnvConfig\<close>, and \<^verbatim>\<open>readFailSection\<close>, whose \<^verbatim>\<open>Verify\<close> always fails, in
  \<^verbatim>\<open>readFailConfig\<close>.
\<close>

record readVerifySection =
  Name :: string
  Verified :: bool

definition readVerifySection_Verify ::
  "readVerifySection \<Rightarrow> error option \<times> readVerifySection" where
  "readVerifySection_Verify s =
     (let s1 = s\<lparr>Verified := True\<rparr>
      in if length (Name s1) = 0 then (Some (Errorf ''missing name''), s1) else (None, s1))"

definition tReadVerifySection :: gotype where
  "tReadVerifySection = TStruct ''readVerifySection''
     [FDecl ''Name'' [] [] TString, FDecl ''Verified'' [] [] TBool]"

definition encReadVerifySection :: "readVerifySection \<Rightarrow> val" where
  "encReadVerifySection s = mkStruct tReadVerifySection [VString (Name s), VBool (Verified s)]"

definition decReadVerifySection :: "val \<Rightarrow> readVerifySection" where
  "decReadVerifySection v = \<lparr>Name = strOf (arg v 0), Verified = boolOf (arg v 1)\<rparr>"

definition tReadRuntimeSection :: gotype where
  "tReadRuntimeSection = TStruct ''readRuntimeSection''
     [FDecl ''Enabled'' [] ''APP_ENABLED'' TBool,
      FDecl ''Port'' [] ''APP_PORT'' (TInt KInt),
      FDecl ''Hosts'' [] ''APP_HOSTS'' (TSlice TString),
      FDecl ''Timeout'' [] ''APP_TIMEOUT'' TDuration,
      FDecl ''MaxRetries'' [] ''APP_MAX_RETRIES'' (TPtr (TInt KInt))]"

definition tReadEnvConfig :: gotype where
  "tReadEnvConfig = TStruct ''readEnvConfig''
     [FDecl ''Section'' [] [] tReadVerifySection,
      FDecl ''Runtime'' [] [] tReadRuntimeSection]"

definition tReadFailSection :: gotype where
  "tReadFailSection = TStruct ''readFailSection'' [FDecl ''Token'' [] [] TString]"

definition tReadFailConfig :: gotype where
  "tReadFailConfig = TStruct ''readFailConfig'' [FDecl ''Check'' [] [] tReadFailSection]"

definition readFailSection_Verify :: "val \<Rightarrow> error option \<times> val" where
  "readFailSection_Verify s = (Some (Errorf ''verify boom''), s)"

definition testMethods :: methods where
  "testMethods n =
     (if n = ''readVerifySection'' then
        Some (sectionMethod tReadVerifySection decReadVerifySection encReadVerifySection
                readVerifySection_Verify)
      else if n = ''readFailSection'' then
        Some \<lparr>onValue = False, body = readFailSection_Verify\<rparr>
      else None)"

text \<open>
  A program with an embedded validator:
  \<^verbatim>\<open>type Counter struct { Calls []string }\<close>,
  \<^verbatim>\<open>func (c *Counter) Verify() error { c.Calls = append(c.Calls, "Verify"); return nil }\<close>,
  \<^verbatim>\<open>type Holder struct { Counter }\<close> and \<^verbatim>\<open>type Root struct { H Holder }\<close>.
  \<^verbatim>\<open>Holder\<close> embeds \<^verbatim>\<open>Counter\<close>, so Go promotes the method: \<^verbatim>\<open>*Holder\<close> has a \<^verbatim>\<open>Verify\<close> that
  calls \<^verbatim>\<open>Verify\<close> on the embedded field.
\<close>

definition promoted :: "nat \<Rightarrow> verifier \<Rightarrow> verifier" where
  "promoted i m =
     \<lparr>onValue = onValue m,
      body = (\<lambda>v. case v of
                VStruct n fs \<Rightarrow>
                  if i < length fs then
                    (let r = body m (fval (fs ! i))
                     in (fst r, VStruct n (fs[i := setFval (fs ! i) (snd r)])))
                  else (None, v)
              | _ \<Rightarrow> (None, v))\<rparr>"

definition Counter_Verify :: "val \<Rightarrow> error option \<times> val" where
  "Counter_Verify c =
     (case c of
        VStruct n [SField f p e (VSlice t calls)] \<Rightarrow>
          (None, VStruct n [SField f p e (VSlice t (calls @ [VString ''Verify'']))])
      | _ \<Rightarrow> (None, c))"

definition tCounter :: gotype where
  "tCounter = TStruct ''Counter'' [FDecl ''Calls'' [] [] (TSlice TString)]"

definition tHolder :: gotype where
  "tHolder = TStruct ''Holder'' [FDecl ''Counter'' [] [] tCounter]"

definition tRoot :: gotype where
  "tRoot = TStruct ''Root'' [FDecl ''H'' [] [] tHolder]"

definition counterMethods :: methods where
  "counterMethods n =
     (if n = ''Counter'' then Some \<lparr>onValue = False, body = Counter_Verify\<rparr>
      else if n = ''Holder'' then Some (promoted 0 \<lparr>onValue = False, body = Counter_Verify\<rparr>)
      else None)"

text \<open>
  A program that binds a struct field:
  \<^verbatim>\<open>type Inner struct { X string `env:"X"` }\<close> and
  \<^verbatim>\<open>type Outer struct { Sub Inner `env:"SUB"` }\<close>.
\<close>

definition tInner :: gotype where
  "tInner = TStruct ''Inner'' [FDecl ''X'' [] ''X'' TString]"

definition tOuter :: gotype where
  "tOuter = TStruct ''Outer'' [FDecl ''Sub'' [] ''SUB'' tInner]"

section \<open>The override pass: properties\<close>

lemma allocated_not_pointer: "(\<forall>t p. v \<noteq> VPtr t p) \<Longrightarrow> allocated v = v"
  by (subst allocated.simps) (cases v; simp)

lemma setValueFromEnv_not_settable:
  "\<not> addr \<Longrightarrow> setValueFromEnv W addr fld raw = (Some NotSettable, fld)"
  by (subst setValueFromEnv.simps) (simp add: canSet_def)

lemma setValueFromEnv_failure_allocated:
  "fst (setValueFromEnv W addr fld raw) \<noteq> None \<Longrightarrow> addr \<Longrightarrow>
   snd (setValueFromEnv W addr fld raw) = allocated fld"
proof (induction W addr fld raw rule: setValueFromEnv.induct)
  case (1 W addr fld raw)
  show ?case
  proof (cases fld)
    case (VPtr t p)
    let ?elem = "case p of None \<Rightarrow> zero t | Some v \<Rightarrow> v"
    have cs: "canSet addr fld" using VPtr "1.prems" by (simp add: canSet_def)
    have eq: "setValueFromEnv W addr fld raw =
        (fst (setValueFromEnv W True ?elem raw), VPtr t (Some (snd (setValueFromEnv W True ?elem raw))))"
      using cs VPtr by (subst setValueFromEnv.simps) (simp add: Let_def)
    then have "fst (setValueFromEnv W True ?elem raw) \<noteq> None"
      using "1.prems" by simp
    then have "snd (setValueFromEnv W True ?elem raw) = allocated ?elem"
      using "1.IH" [OF _ VPtr refl] cs by simp
    then show ?thesis
      using eq VPtr by (subst allocated.simps) simp
  next
    case Invalid
    then show ?thesis
      by (subst setValueFromEnv.simps, subst allocated.simps) (simp add: canSet_def)
  qed (use "1.prems" in \<open>subst allocated.simps, subst setValueFromEnv.simps,
        subst (asm) setValueFromEnv.simps, simp add: canSet_def split: option.splits if_splits\<close>)+
qed

lemma applyEnvFields_length: "length (snd (applyEnvFields W addr path fs)) = length fs"
  by (induction fs) (simp_all add: Let_def split: option.splits)

lemma applyEnvFields_append:
  "applyEnvFields W addr path (pre @ post) =
     (case fst (applyEnvFields W addr path pre) of
        Some e \<Rightarrow> (Some e, snd (applyEnvFields W addr path pre) @ post)
      | None \<Rightarrow> (fst (applyEnvFields W addr path post),
                 snd (applyEnvFields W addr path pre) @ snd (applyEnvFields W addr path post)))"
proof (induction pre)
  case Nil
  then show ?case by simp
next
  case (Cons f pre)
  then show ?case
    by (simp add: Let_def split: option.splits)
qed

lemma setFval_fval [simp]: "setFval f (fval f) = f"
  by (cases f) simp

lemma fval_setFval [simp]: "fval (setFval f v) = v"
  by (cases f) simp

lemma overrideField_absent:
  "envTag f = [] \<or> LookupEnv W (envTag f) = None \<Longrightarrow>
   overrideField W addr f fieldPath = (None, fval f)"
  by (auto simp: overrideField_def Let_def)

lemma bindingsOfField_alt:
  "set (bindingsOfField f) = (if envTag f = [] then {} else {envTag f}) \<union> set (bindingsOf (fval f))"
  by (cases f) auto

lemma applyEnv_quiet:
  "(\<forall>k \<in> set (bindingsOf v). LookupEnv W k = None) \<Longrightarrow>
     applyEnvOverridesValue W addr v path = (None, v)"
  "(\<forall>k \<in> set (bindingsOfFields fs). LookupEnv W k = None) \<Longrightarrow>
     applyEnvFields W addr path fs = (None, fs)"
proof (induction W addr v path and W addr path fs rule: applyEnvOverridesValue_applyEnvFields.induct)
  case (6 W addr path f rest)
  show ?case
  proof (cases "length (pkgPath f) > 0")
    case True
    then show ?thesis using 6 by simp
  next
    case False
    let ?fp = "joinPath path (fname f)"
    have all: "\<forall>k \<in> set (bindingsOfField f) \<union> set (bindingsOfFields rest).
        LookupEnv W k = None"
      using "6.prems" by simp
    have q: "\<forall>k \<in> set (bindingsOf (fval f)). LookupEnv W k = None"
      using all by (simp add: bindingsOfField_alt)
    have r: "\<forall>k \<in> set (bindingsOfFields rest). LookupEnv W k = None"
      using all by simp
    have t: "envTag f = [] \<or> LookupEnv W (envTag f) = None"
    proof (cases "envTag f = []")
      case False
      then have "envTag f \<in> set (bindingsOfField f)" by (simp add: bindingsOfField_alt)
      then have "LookupEnv W (envTag f) = None" using all by simp
      then show ?thesis by simp
    qed simp
    have o: "overrideField W addr f ?fp = (None, fval f)"
      using t by (rule overrideField_absent)
    have v: "applyEnvOverridesValue W addr (fval f) ?fp = (None, fval f)"
      using "6.IH"(2) [OF False refl refl] o q by simp
    have l: "applyEnvFields W addr path rest = (None, rest)"
      using "6.IH"(3) [OF False refl refl _ refl] o v r by simp
    show ?thesis using False o v l by (simp add: Let_def)
  qed
qed (simp_all add: Let_def)

text \<open>
  C3 (amended). When the coercion of a bound field fails, the loop over the fields stops
  there: the error names the binding, the dotted path of the field and the cause; the
  fields after it are not touched; the fields before it keep what the pass made of them;
  and the failing field is as \<open>allocated\<close> leaves it: unchanged unless it is a pointer, in
  which case the nil pointers on the way to the value have been allocated. An error from
  a nested struct is returned as it is, again with the later fields untouched.
\<close>

theorem override_failure_aborts:
  "(applyEnvFields W addr path pre = (None, pre') \<and> pkgPath f = [] \<and> envTag f \<noteq> []
      \<and> LookupEnv W (envTag f) = Some raw
      \<and> fst (setValueFromEnv W addr (fval f) raw) = Some cause
    \<longrightarrow> applyEnvFields W addr path (pre @ f # post) =
          (Some (InvalidEnv (envTag f) (joinPath path (fname f)) cause),
           pre' @ setFval f (if addr then allocated (fval f) else fval f) # post))
   \<and> (applyEnvFields W addr path pre = (None, pre') \<and> pkgPath g = []
      \<and> overrideField W addr g (joinPath path (fname g)) = (None, v1)
      \<and> applyEnvOverridesValue W addr v1 (joinPath path (fname g)) = (Some e, v2)
    \<longrightarrow> applyEnvFields W addr path (pre @ g # post) = (Some e, pre' @ setFval g v2 # post))
   \<and> ((\<forall>t p. v \<noteq> VPtr t p) \<longrightarrow> allocated v = v)"
proof (intro conjI impI)
  assume a: "applyEnvFields W addr path pre = (None, pre') \<and> pkgPath f = [] \<and> envTag f \<noteq> []
      \<and> LookupEnv W (envTag f) = Some raw
      \<and> fst (setValueFromEnv W addr (fval f) raw) = Some cause"
  let ?r = "setValueFromEnv W addr (fval f) raw"
  have s: "snd ?r = (if addr then allocated (fval f) else fval f)"
  proof (cases addr)
    case True
    then show ?thesis using a setValueFromEnv_failure_allocated [of W addr "fval f" raw] by simp
  next
    case False
    then show ?thesis by (simp add: setValueFromEnv_not_settable)
  qed
  have o: "overrideField W addr f (joinPath path (fname f)) =
      (Some (InvalidEnv (envTag f) (joinPath path (fname f)) cause), snd ?r)"
    using a by (cases ?r) (simp add: overrideField_def Let_def)
  have "applyEnvFields W addr path (f # post) =
      (Some (InvalidEnv (envTag f) (joinPath path (fname f)) cause), setFval f (snd ?r) # post)"
    using a o by (simp add: Let_def)
  then show "applyEnvFields W addr path (pre @ f # post) =
          (Some (InvalidEnv (envTag f) (joinPath path (fname f)) cause),
           pre' @ setFval f (if addr then allocated (fval f) else fval f) # post)"
    using a s by (simp add: applyEnvFields_append)
next
  assume a: "applyEnvFields W addr path pre = (None, pre') \<and> pkgPath g = []
      \<and> overrideField W addr g (joinPath path (fname g)) = (None, v1)
      \<and> applyEnvOverridesValue W addr v1 (joinPath path (fname g)) = (Some e, v2)"
  then have "applyEnvFields W addr path (g # post) = (Some e, setFval g v2 # post)"
    by (simp add: Let_def)
  then show "applyEnvFields W addr path (pre @ g # post) = (Some e, pre' @ setFval g v2 # post)"
    using a by (simp add: applyEnvFields_append)
next
  assume "\<forall>t p. v \<noteq> VPtr t p"
  then show "allocated v = v" by (rule allocated_not_pointer)
qed

text \<open>
  C7 (amended). A tree with no override bindings, and more generally a tree none of whose
  bindings is in the environment, is left unchanged by \<^verbatim>\<open>applyEnvOverrides\<close>. A field whose
  binding is absent from the environment survives the pass unchanged when no binding
  inside it is in the environment either (which is so for every field that holds no
  struct): the pass still walks into the field.
\<close>

theorem absent_bindings_no_override:
  "(bindingsOf cfg = [] \<longrightarrow> applyEnvOverrides W cfg = (None, cfg))
   \<and> ((\<forall>k \<in> set (bindingsOf cfg). LookupEnv W k = None) \<longrightarrow>
        applyEnvOverrides W cfg = (None, cfg))
   \<and> (LookupEnv W (envTag f) = None \<and> (\<forall>k \<in> set (bindingsOf (fval f)). LookupEnv W k = None)
        \<longrightarrow> snd (applyEnvFields W addr path (pre @ f # post)) ! length pre = f)"
proof (intro conjI impI)
  assume "bindingsOf cfg = []"
  then show "applyEnvOverrides W cfg = (None, cfg)"
    by (simp add: applyEnvOverrides_def applyEnv_quiet(1))
next
  assume "\<forall>k \<in> set (bindingsOf cfg). LookupEnv W k = None"
  then show "applyEnvOverrides W cfg = (None, cfg)"
    by (simp add: applyEnvOverrides_def applyEnv_quiet(1))
next
  assume a: "LookupEnv W (envTag f) = None
      \<and> (\<forall>k \<in> set (bindingsOf (fval f)). LookupEnv W k = None)"
  let ?fp = "joinPath path (fname f)"
  have o: "overrideField W addr f ?fp = (None, fval f)"
    using a by (simp add: overrideField_absent)
  have v: "applyEnvOverridesValue W addr (fval f) ?fp = (None, fval f)"
    using a by (simp add: applyEnv_quiet(1))
  have h: "snd (applyEnvFields W addr path (f # post)) ! 0 = f"
    using o v by (simp add: Let_def)
  have l: "length (snd (applyEnvFields W addr path pre)) = length pre"
    by (rule applyEnvFields_length)
  have ne: "snd (applyEnvFields W addr path (f # post)) \<noteq> []"
    using applyEnvFields_length [of W addr path "f # post"] by (metis length_0_conv list.distinct(1))
  show "snd (applyEnvFields W addr path (pre @ f # post)) ! length pre = f"
  proof (cases "fst (applyEnvFields W addr path pre)")
    case None
    then show ?thesis
      using h l ne by (simp add: applyEnvFields_append nth_append)
  next
    case (Some e)
    then show ?thesis
      using l by (simp add: applyEnvFields_append nth_append)
  qed
qed

lemmas example_defs =
  exampleWorld_def tReadEnvConfig_def tReadRuntimeSection_def tReadVerifySection_def
  tOuter_def tInner_def applyEnvOverrides_def overrideField_def joinPath_def canSet_def
  ParseInt_def ParseUint_def ParseBool_def decimal_def isDigit_def Let_def

theorem override_failure_counterexample:
  "applyEnvOverrides (exampleWorld [(''APP_MAX_RETRIES'', ''abc'')])
      (VPtr tReadEnvConfig (Some (mkStruct tReadEnvConfig
         [zero tReadVerifySection,
          mkStruct tReadRuntimeSection
            [VBool False, VInt KInt 0, VSlice TString [], VDuration 0, VPtr (TInt KInt) None]])))
    = (Some (InvalidEnv ''APP_MAX_RETRIES'' ''Runtime.MaxRetries'' (ExpectedInteger ''abc'')),
       VPtr tReadEnvConfig (Some (mkStruct tReadEnvConfig
         [zero tReadVerifySection,
          mkStruct tReadRuntimeSection
            [VBool False, VInt KInt 0, VSlice TString [], VDuration 0,
             VPtr (TInt KInt) (Some (VInt KInt 0))]])))"
  by (simp add: example_defs setValueFromEnv.simps)

theorem override_failure_aborts_witness:
  "applyEnvFields (exampleWorld [(''APP_PORT'', ''9191''), (''APP_TIMEOUT'', ''bogus'')]) True
      ''Runtime''
      [SField ''Enabled'' [] ''APP_ENABLED'' (VBool False),
       SField ''Port'' [] ''APP_PORT'' (VInt KInt 8080),
       SField ''Hosts'' [] ''APP_HOSTS'' (VSlice TString []),
       SField ''Timeout'' [] ''APP_TIMEOUT'' (VDuration 5000000000),
       SField ''MaxRetries'' [] ''APP_MAX_RETRIES'' (VPtr (TInt KInt) None)]
    = (Some (InvalidEnv ''APP_TIMEOUT'' ''Runtime.Timeout'' (ExpectedDuration ''bogus'')),
       [SField ''Enabled'' [] ''APP_ENABLED'' (VBool False),
        SField ''Port'' [] ''APP_PORT'' (VInt KInt 9191),
        SField ''Hosts'' [] ''APP_HOSTS'' (VSlice TString []),
        SField ''Timeout'' [] ''APP_TIMEOUT'' (VDuration 5000000000),
        SField ''MaxRetries'' [] ''APP_MAX_RETRIES'' (VPtr (TInt KInt) None)])"
proof -
  let ?W = "exampleWorld [(''APP_PORT'', ''9191''), (''APP_TIMEOUT'', ''bogus'')]"
  let ?f = "SField ''Timeout'' [] ''APP_TIMEOUT'' (VDuration 5000000000)"
  have h: "applyEnvFields ?W True ''Runtime''
        [SField ''Enabled'' [] ''APP_ENABLED'' (VBool False),
         SField ''Port'' [] ''APP_PORT'' (VInt KInt 8080),
         SField ''Hosts'' [] ''APP_HOSTS'' (VSlice TString [])]
      = (None,
        [SField ''Enabled'' [] ''APP_ENABLED'' (VBool False),
         SField ''Port'' [] ''APP_PORT'' (VInt KInt 9191),
         SField ''Hosts'' [] ''APP_HOSTS'' (VSlice TString [])])
      \<and> pkgPath ?f = [] \<and> envTag ?f \<noteq> []
      \<and> LookupEnv ?W (envTag ?f) = Some ''bogus''
      \<and> fst (setValueFromEnv ?W True (fval ?f) ''bogus'') = Some (ExpectedDuration ''bogus'')"
    by (simp add: example_defs setValueFromEnv.simps)
  have a: "allocated (VDuration 5000000000) = VDuration 5000000000"
    by (rule allocated_not_pointer) simp
  from override_failure_aborts [THEN conjunct1, THEN mp, OF h,
      of "[SField ''MaxRetries'' [] ''APP_MAX_RETRIES'' (VPtr (TInt KInt) None)]"]
  show ?thesis by (simp add: a joinPath_def)
qed

theorem absent_bindings_counterexample:
  "LookupEnv (exampleWorld [(''X'', ''from-env'')]) ''SUB'' = None
   \<and> applyEnvOverrides (exampleWorld [(''X'', ''from-env'')])
        (VPtr tOuter (Some (mkStruct tOuter [mkStruct tInner [VString ''from-yaml'']])))
      = (None, VPtr tOuter (Some (mkStruct tOuter [mkStruct tInner [VString ''from-env'']])))"
  by (simp add: example_defs setValueFromEnv.simps)

theorem absent_bindings_no_override_witness:
  "applyEnvOverrides (exampleWorld [(''APP_ENABLED'', ''true'')])
      (VPtr tReadVerifySection (Some (zero tReadVerifySection)))
     = (None, VPtr tReadVerifySection (Some (zero tReadVerifySection)))
   \<and> applyEnvOverrides (exampleWorld [(''APP_ENABLED'', ''true'')])
        (VPtr tOuter (Some (zero tOuter))) = (None, VPtr tOuter (Some (zero tOuter)))
   \<and> snd (applyEnvFields (exampleWorld [(''APP_ENABLED'', ''true'')]) True ''Runtime''
        ([SField ''Enabled'' [] ''APP_ENABLED'' (VBool False)]
         @ SField ''Port'' [] ''APP_PORT'' (VInt KInt 8080)
         # [SField ''Hosts'' [] ''APP_HOSTS'' (VSlice TString [])]))
      ! length [SField ''Enabled'' [] ''APP_ENABLED'' (VBool False)]
     = SField ''Port'' [] ''APP_PORT'' (VInt KInt 8080)"
proof -
  let ?W = "exampleWorld [(''APP_ENABLED'', ''true'')]"
  let ?f = "SField ''Port'' [] ''APP_PORT'' (VInt KInt 8080)"
  have h1: "bindingsOf (VPtr tReadVerifySection (Some (zero tReadVerifySection))) = []"
    by (simp add: example_defs)
  have h2: "\<forall>k \<in> set (bindingsOf (VPtr tOuter (Some (zero tOuter)))). LookupEnv ?W k = None"
    by (simp add: example_defs)
  have h3: "LookupEnv ?W (envTag ?f) = None
      \<and> (\<forall>k \<in> set (bindingsOf (fval ?f)). LookupEnv ?W k = None)"
    by (simp add: example_defs)
  note t = absent_bindings_no_override [where W = ?W and f = ?f]
  show ?thesis
    using t [THEN conjunct1, THEN mp, OF h1]
      t [THEN conjunct2, THEN conjunct1, THEN mp, OF h2]
      t [THEN conjunct2, THEN conjunct2, THEN mp, OF h3]
    by blast
qed

section \<open>Coercion of string sequences\<close>

lemma trimLeft_spaces:
  "list_all (\<lambda>c. asciiSpace (of_char c)) s \<Longrightarrow> trimLeft s = []"
proof (induction s)
  case Nil
  then show ?case by (subst trimLeft.simps) (simp add: spaceLen_def)
next
  case (Cons c cs)
  then have "spaceLen (map of_char (c # cs)) = 1"
    by (simp add: spaceLen_def)
  with Cons show ?case by (subst trimLeft.simps) simp
qed

lemma trimRightRev_Nil: "trimRightRev [] = []"
  by (subst trimRightRev.simps) (simp add: spaceLenRev_def)

lemma TrimSpace_spaces:
  "list_all (\<lambda>c. asciiSpace (of_char c)) s \<Longrightarrow> TrimSpace s = []"
  by (simp add: TrimSpace_def trimLeft_spaces trimRightRev_Nil)

text \<open>
  C6. A field of type \<^verbatim>\<open>[]string\<close> overridden from the environment gets the raw string
  split on commas, each part trimmed of its surrounding white space; a raw string that
  is empty or all white space gives the empty sequence, not a sequence holding one empty
  string. In particular the empty string gives no element, and \<^verbatim>\<open>"a, b ,c"\<close> gives
  \<^verbatim>\<open>a\<close>, \<^verbatim>\<open>b\<close>, \<^verbatim>\<open>c\<close>.
\<close>

theorem string_slice_coercion:
  "setValueFromEnv W True (VSlice TString old) raw =
     (None, VSlice TString (if TrimSpace raw = [] then []
                            else map (\<lambda>part. VString (TrimSpace part)) (Split raw)))
   \<and> (list_all (\<lambda>c. asciiSpace (of_char c)) raw \<longrightarrow>
        setValueFromEnv W True (VSlice TString old) raw = (None, VSlice TString []))
   \<and> setValueFromEnv W True (VSlice TString old) '''' = (None, VSlice TString [])
   \<and> setValueFromEnv W True (VSlice TString old) ''a, b ,c'' =
        (None, VSlice TString [VString ''a'', VString ''b'', VString ''c''])"
proof -
  have gen: "setValueFromEnv W True (VSlice TString old) r =
     (None, VSlice TString (if TrimSpace r = [] then []
                            else map (\<lambda>part. VString (TrimSpace part)) (Split r)))" for r
    by (subst setValueFromEnv.simps) (simp add: canSet_def)
  have ex1: "TrimSpace '''' = []"
    by (rule TrimSpace_spaces) simp
  have ex2: "TrimSpace ''a, b ,c'' \<noteq> []" by code_simp
  have ex3: "map (\<lambda>part. VString (TrimSpace part)) (Split ''a, b ,c'')
      = [VString ''a'', VString ''b'', VString ''c'']" by code_simp
  show ?thesis
    using gen ex1 ex2 ex3 by (simp add: TrimSpace_spaces)
qed

theorem string_slice_coercion_witness:
  "list_all (\<lambda>c. asciiSpace (of_char c)) ''  ''
   \<and> setValueFromEnv (exampleWorld []) True (VSlice TString [VString ''host-a'']) ''  ''
       = (None, VSlice TString [])"
proof -
  have sp: "list_all (\<lambda>c. asciiSpace (of_char c)) ''  ''"
    by (simp add: asciiSpace_def)
  from string_slice_coercion [of "exampleWorld []" "[VString ''host-a'']" "''  ''"]
  have "list_all (\<lambda>c. asciiSpace (of_char c)) ''  '' \<longrightarrow>
      setValueFromEnv (exampleWorld []) True (VSlice TString [VString ''host-a'']) ''  ''
       = (None, VSlice TString [])"
    by blast
  with sp show ?thesis by blast
qed



section \<open>A connect string that is given\<close>

text \<open>
  C10. When \<^verbatim>\<open>ConnectString\<close> is not empty, \<^verbatim>\<open>Verify\<close> of \<^verbatim>\<open>MySQLDatabase\<close> and of
  \<^verbatim>\<open>PostgresDatabase\<close> succeeds and changes no field, whatever the other fields hold and
  whatever the world is: no presence check and no host and port check is made.
\<close>

theorem connect_string_given:
  "(MySQLDatabase.ConnectString my \<noteq> [] \<longrightarrow> MySQLDatabase_Verify W my = (None, my))
   \<and> (PostgresDatabase.ConnectString pg \<noteq> [] \<longrightarrow> PostgresDatabase_Verify W pg = (None, pg))"
  by (simp add: MySQLDatabase_Verify_def PostgresDatabase_Verify_def)

theorem connect_string_given_witness:
  "MySQLDatabase_Verify (exampleWorld [])
      \<lparr>MySQLDatabase.Server = [], MySQLDatabase.User = [], MySQLDatabase.Password = [],
       MySQLDatabase.DB = [], MySQLDatabase.Params = [],
       MySQLDatabase.ConnectString = ''dsn''\<rparr>
    = (None,
      \<lparr>MySQLDatabase.Server = [], MySQLDatabase.User = [], MySQLDatabase.Password = [],
       MySQLDatabase.DB = [], MySQLDatabase.Params = [],
       MySQLDatabase.ConnectString = ''dsn''\<rparr>)
   \<and> PostgresDatabase_Verify (exampleWorld [])
      \<lparr>PostgresDatabase.Server = [], PostgresDatabase.User = [], PostgresDatabase.Password = [],
       PostgresDatabase.DB = [], PostgresDatabase.Params = [],
       PostgresDatabase.ConnectString = ''dsn''\<rparr>
    = (None,
      \<lparr>PostgresDatabase.Server = [], PostgresDatabase.User = [], PostgresDatabase.Password = [],
       PostgresDatabase.DB = [], PostgresDatabase.Params = [],
       PostgresDatabase.ConnectString = ''dsn''\<rparr>)"
  using connect_string_given [of
      "\<lparr>MySQLDatabase.Server = [], MySQLDatabase.User = [], MySQLDatabase.Password = [],
       MySQLDatabase.DB = [], MySQLDatabase.Params = [],
       MySQLDatabase.ConnectString = ''dsn''\<rparr>" "exampleWorld []"
      "\<lparr>PostgresDatabase.Server = [], PostgresDatabase.User = [], PostgresDatabase.Password = [],
       PostgresDatabase.DB = [], PostgresDatabase.Params = [],
       PostgresDatabase.ConnectString = ''dsn''\<rparr>"]
  by simp




section \<open>Targets that are not a pointer to a struct\<close>

lemma validateConfigPointer_cases:
  "validateConfigPointer cfg = None \<longleftrightarrow> (\<exists>t n fs. cfg = VPtr t (Some (VStruct n fs)))"
proof (cases cfg)
  case (VPtr t p)
  show ?thesis
  proof (cases p)
    case None
    with VPtr show ?thesis by (simp add: validateConfigPointer_def)
  next
    case (Some u)
    with VPtr show ?thesis by (cases u) (simp_all add: validateConfigPointer_def)
  qed
qed (simp_all add: validateConfigPointer_def)

lemma validateConfigPointer_errors:
  "validateConfigPointer cfg = None \<or> validateConfigPointer cfg = Some ConfigNotPointer
     \<or> validateConfigPointer cfg = Some CfgNotStruct"
proof (cases cfg)
  case (VPtr t p)
  show ?thesis
  proof (cases p)
    case None
    with VPtr show ?thesis by (simp add: validateConfigPointer_def)
  next
    case (Some u)
    with VPtr show ?thesis by (cases u) (simp_all add: validateConfigPointer_def)
  qed
qed (simp_all add: validateConfigPointer_def)

text \<open>
  C4. For a target that is not a non-nil pointer to a struct, \<^verbatim>\<open>Read\<close> fails with one of
  the two errors of \<^verbatim>\<open>validateConfigPointer\<close>, asks for no file, leaves the target as it is
  and calls no validator; its outcome is the same in every world, for every file name.
\<close>

theorem Read_invalid_target:
  assumes "\<not> (\<exists>t n fs. cfg = VPtr t (Some (VStruct n fs)))"
  shows "(failure (Read W M filename cfg) = Some ConfigNotPointer
          \<or> failure (Read W M filename cfg) = Some CfgNotStruct)
    \<and> filesRead (Read W M filename cfg) = []
    \<and> target (Read W M filename cfg) = cfg
    \<and> verifyCalls (Read W M filename cfg) = []
    \<and> Read W M filename cfg = Read W' M' filename' cfg"
proof -
  have "validateConfigPointer cfg \<noteq> None"
    using assms validateConfigPointer_cases [of cfg] by simp
  then have "validateConfigPointer cfg = Some ConfigNotPointer
      \<or> validateConfigPointer cfg = Some CfgNotStruct"
    using validateConfigPointer_errors [of cfg] by auto
  then show ?thesis
    by (auto simp: Read_def)
qed

theorem Read_invalid_target_witness:
  "Read (exampleWorld []) (packageMethods (exampleWorld [])) ''ignored.yaml'' (zero tConfig)
     = \<lparr>failure = Some ConfigNotPointer, target = zero tConfig, filesRead = [],
        verifyCalls = []\<rparr>"
proof -
  have z: "zero tConfig = VStruct ''Config'' (zeroFields (case tConfig of TStruct n ds \<Rightarrow> ds))"
    by (simp add: tConfig_def)
  have "\<not> (\<exists>t n fs. zero tConfig = VPtr t (Some (VStruct n fs)))"
    by (subst z) simp
  from Read_invalid_target [OF this, of "exampleWorld []"
      "packageMethods (exampleWorld [])" "''ignored.yaml''"]
  have "failure (Read (exampleWorld []) (packageMethods (exampleWorld [])) ''ignored.yaml''
          (zero tConfig)) = Some ConfigNotPointer"
    by (subst (asm) (1 2) z) (simp add: Read_def validateConfigPointer_def)
  then show ?thesis
    by (subst (asm) z, subst (1 2) z) (simp add: Read_def validateConfigPointer_def)
qed

section \<open>The validation pass: properties\<close>

lemma verifyFields_length: "length (fst (snd (verifyFields M addr path fs))) = length fs"
  by (induction fs) (simp_all add: Let_def split: option.splits)

lemma verifyFields_append:
  "verifyFields M addr path (pre @ post) =
     (case fst (verifyFields M addr path pre) of
        Some e \<Rightarrow> (Some e, fst (snd (verifyFields M addr path pre)) @ post,
                   snd (snd (verifyFields M addr path pre)))
      | None \<Rightarrow> (fst (verifyFields M addr path post),
                 fst (snd (verifyFields M addr path pre)) @ fst (snd (verifyFields M addr path post)),
                 snd (snd (verifyFields M addr path pre)) @ snd (snd (verifyFields M addr path post))))"
proof (induction pre)
  case Nil
  then show ?case by simp
next
  case (Cons f pre)
  then show ?case
    by (simp add: Let_def split: option.splits)
qed

lemma runVerify_calls: "snd (snd (runVerify m v path)) = [path]"
  by (simp add: runVerify_def Let_def split: option.splits)

lemma runVerify_failure:
  "fst (runVerify m v path) = map_option (VerifyError path) (fst (invoke m v))"
  by (simp add: runVerify_def Let_def split: option.splits)

lemma callVerifyHere_calls:
  "snd (snd (callVerifyHere M addr v path)) = [] \<or> snd (snd (callVerifyHere M addr v path)) = [path]"
  by (auto simp: callVerifyHere_def Let_def runVerify_calls split: option.splits val.splits)

lemma callVerify_calls:
  "snd (snd (callVerify M addr v path)) = [] \<or> snd (snd (callVerify M addr v path)) = [path]"
  using callVerifyHere_calls [of M addr v path] callVerifyHere_calls [of M True _ path]
  by (auto simp: callVerify_def Let_def runVerify_calls split: option.splits val.splits)

lemma callVerifyHere_failure_calls:
  "fst (callVerifyHere M addr v path) \<noteq> None \<Longrightarrow> snd (snd (callVerifyHere M addr v path)) = [path]"
  by (auto simp: callVerifyHere_def Let_def runVerify_calls split: option.splits val.splits)

lemma callVerify_failure_calls:
  "fst (callVerify M addr v path) \<noteq> None \<Longrightarrow> snd (snd (callVerify M addr v path)) = [path]"
  using callVerifyHere_failure_calls [of M addr v path] callVerifyHere_failure_calls [of M True _ path]
  by (auto simp: callVerify_def Let_def runVerify_calls split: option.splits val.splits)

lemma callVerify_struct:
  "addr \<Longrightarrow> ptrMethod M (VStruct n fs) = Some m \<Longrightarrow>
   callVerify M addr (VStruct n fs) path = runVerify m (VStruct n fs) path"
  by (simp add: callVerify_def callVerifyHere_def addrMethod_def)

lemma fst_invoke: "fst (invoke m v) = fst (body m v)"
  by (simp add: invoke_def Let_def)

text \<open>
  C2 (amended). When the validator of a section fails, the loop over the fields of its
  struct stops there: the error is the validator's own error wrapped with the path of the
  section, the call at that path is the last call, and the fields after it are left as
  they were. An error from below a field is returned as it is. \<^verbatim>\<open>Read\<close> returns the error
  of the walk over the fields of the root, which starts at the name of the root's type:
  the path of a section is that name, a dot and the dotted field path (the dotted field
  path alone when the root's type has no name).
\<close>

theorem verify_failure_path:
  "(verifyFields M addr path pre = (None, pre', calls) \<and> pkgPath f = []
      \<and> callVerify M addr (fval f) (joinPath path (fname f)) = (Some e, v', c)
    \<longrightarrow> verifyFields M addr path (pre @ f # post) = (Some e, pre' @ setFval f v' # post, calls @ c)
        \<and> c = [joinPath path (fname f)])
   \<and> (addr \<and> M n = Some m \<and> fst (body m (VStruct n fs)) = Some cause
    \<longrightarrow> fst (callVerify M addr (VStruct n fs) fieldPath) = Some (VerifyError fieldPath cause))
   \<and> (M n = Some m \<and> fst (body m u) = Some cause
    \<longrightarrow> fst (callVerify M addr (VPtr (TStruct n ds) (Some u)) fieldPath)
          = Some (VerifyError fieldPath cause))
   \<and> (verifyFields M addr path pre = (None, pre', calls) \<and> pkgPath g = []
      \<and> callVerify M addr (fval g) (joinPath path (fname g)) = (None, v1, c1)
      \<and> verifyStructValues M addr v1 (joinPath path (fname g)) = (Some e2, v2, s)
    \<longrightarrow> verifyFields M addr path (pre @ g # post)
          = (Some e2, pre' @ setFval g v2 # post, calls @ c1 @ s))
   \<and> (validateConfigPointer cfg = None \<and> ReadFile W filename = Inr b
      \<and> Unmarshal W b cfg = (None, cfg1)
      \<and> applyEnvOverrides W cfg1 = (None, VPtr t (Some (VStruct rootName rootFields)))
    \<longrightarrow> failure (Read W M filename cfg) = fst (verifyFields M True rootName rootFields)
        \<and> verifyCalls (Read W M filename cfg) = snd (snd (verifyFields M True rootName rootFields)))
   \<and> (rootName \<noteq> [] \<longrightarrow> joinPath rootName name = rootName @ ''.'' @ name)
   \<and> joinPath [] name = name"
proof (intro conjI impI)
  assume a: "verifyFields M addr path pre = (None, pre', calls) \<and> pkgPath f = []
      \<and> callVerify M addr (fval f) (joinPath path (fname f)) = (Some e, v', c)"
  then have "verifyFields M addr path (f # post) = (Some e, setFval f v' # post, c)"
    by (simp add: Let_def)
  with a show "verifyFields M addr path (pre @ f # post)
      = (Some e, pre' @ setFval f v' # post, calls @ c)"
    by (simp add: verifyFields_append)
  show "c = [joinPath path (fname f)]"
    using a callVerify_failure_calls [of M addr "fval f" "joinPath path (fname f)"] by simp
next
  assume "addr \<and> M n = Some m \<and> fst (body m (VStruct n fs)) = Some cause"
  then show "fst (callVerify M addr (VStruct n fs) fieldPath) = Some (VerifyError fieldPath cause)"
    by (simp add: callVerify_struct ptrMethod_def runVerify_failure fst_invoke)
next
  assume "M n = Some m \<and> fst (body m u) = Some cause"
  then show "fst (callVerify M addr (VPtr (TStruct n ds) (Some u)) fieldPath)
      = Some (VerifyError fieldPath cause)"
    by (simp add: callVerify_def valMethod_def Let_def runVerify_failure fst_invoke)
next
  assume a: "verifyFields M addr path pre = (None, pre', calls) \<and> pkgPath g = []
      \<and> callVerify M addr (fval g) (joinPath path (fname g)) = (None, v1, c1)
      \<and> verifyStructValues M addr v1 (joinPath path (fname g)) = (Some e2, v2, s)"
  then have "verifyFields M addr path (g # post) = (Some e2, setFval g v2 # post, c1 @ s)"
    by (simp add: Let_def)
  with a show "verifyFields M addr path (pre @ g # post)
      = (Some e2, pre' @ setFval g v2 # post, calls @ c1 @ s)"
    by (simp add: verifyFields_append)
next
  assume a: "validateConfigPointer cfg = None \<and> ReadFile W filename = Inr b
      \<and> Unmarshal W b cfg = (None, cfg1)
      \<and> applyEnvOverrides W cfg1 = (None, VPtr t (Some (VStruct rootName rootFields)))"
  then show "failure (Read W M filename cfg) = fst (verifyFields M True rootName rootFields)"
    by (simp add: Read_def verifySubStructs_def Let_def)
  from a show "verifyCalls (Read W M filename cfg)
      = snd (snd (verifyFields M True rootName rootFields))"
    by (simp add: Read_def verifySubStructs_def Let_def)
next
  assume "rootName \<noteq> []"
  then show "joinPath rootName name = rootName @ ''.'' @ name"
    by (simp add: joinPath_def)
next
  show "joinPath [] name = name" by (simp add: joinPath_def)
qed

lemmas verify_defs =
  callVerify_def callVerifyHere_def addrMethod_def ptrMethod_def valMethod_def runVerify_def
  invoke_def sectionMethod_def joinPath_def Let_def verifySubStructs_def

lemmas test_defs =
  testMethods_def tReadFailConfig_def tReadFailSection_def tReadVerifySection_def
  readFailSection_Verify_def readVerifySection_Verify_def encReadVerifySection_def
  decReadVerifySection_def

theorem verify_failure_path_witness:
  "failure (Read (exampleWorld []) testMethods ''config.yaml''
      (VPtr tReadFailConfig (Some (zero tReadFailConfig))))
     = Some (VerifyError ''readFailConfig.Check'' (Errorf ''verify boom''))
   \<and> verifyFields testMethods True ''readFailConfig''
        ([] @ SField ''Check'' [] [] (zero tReadFailSection) # [])
     = (Some (VerifyError ''readFailConfig.Check'' (Errorf ''verify boom'')),
        [] @ setFval (SField ''Check'' [] [] (zero tReadFailSection)) (zero tReadFailSection) # [],
        [] @ [''readFailConfig.Check''])"
proof -
  let ?f = "SField ''Check'' [] [] (zero tReadFailSection)"
  let ?cfg = "VPtr tReadFailConfig (Some (zero tReadFailConfig))"
  have h1: "verifyFields testMethods True ''readFailConfig'' [] = (None, [], []) \<and> pkgPath ?f = []
      \<and> callVerify testMethods True (fval ?f) (joinPath ''readFailConfig'' (fname ?f))
          = (Some (VerifyError ''readFailConfig.Check'' (Errorf ''verify boom'')),
             zero tReadFailSection, [''readFailConfig.Check''])"
    by (simp add: verify_defs test_defs)
  have h5: "validateConfigPointer ?cfg = None \<and> ReadFile (exampleWorld []) ''config.yaml'' = Inr []
      \<and> Unmarshal (exampleWorld []) [] ?cfg = (None, ?cfg)
      \<and> applyEnvOverrides (exampleWorld []) ?cfg
          = (None, VPtr tReadFailConfig (Some (VStruct ''readFailConfig'' [?f])))"
    by (simp add: validateConfigPointer_def example_defs test_defs)
  note t = verify_failure_path [where M = testMethods and W = "exampleWorld []"]
  from t [THEN conjunct1, THEN mp, OF h1, of "[]"]
  have r1: "verifyFields testMethods True ''readFailConfig'' [?f]
      = (Some (VerifyError ''readFailConfig.Check'' (Errorf ''verify boom'')),
         [setFval ?f (zero tReadFailSection)], [''readFailConfig.Check''])"
    by simp
  from t [THEN conjunct2, THEN conjunct2, THEN conjunct2, THEN conjunct2, THEN conjunct1,
      THEN mp, OF h5]
  have "failure (Read (exampleWorld []) testMethods ''config.yaml'' ?cfg)
      = fst (verifyFields testMethods True ''readFailConfig'' [?f])"
    by simp
  with r1 show ?thesis by simp
qed

section \<open>Validating twice\<close>

lemma valMethod_noVerifier: "noVerifier M v \<Longrightarrow> valMethod M v = None"
proof (cases v)
  case (VPtr t p)
  assume "noVerifier M v"
  then show ?thesis
    using VPtr by (cases p; cases t) (simp_all add: valMethod_def)
qed (auto simp: valMethod_def)

lemma ptrMethod_noVerifier: "noVerifier M v \<Longrightarrow> ptrMethod M v = None"
  by (cases v) (auto simp: ptrMethod_def)

lemma callVerifyHere_noVerifier: "noVerifier M v \<Longrightarrow> callVerifyHere M addr v path = (None, v, [])"
  by (simp add: callVerifyHere_def addrMethod_def valMethod_noVerifier ptrMethod_noVerifier)

lemma callVerify_noVerifier: "noVerifier M v \<Longrightarrow> callVerify M addr v path = (None, v, [])"
proof (cases v)
  case (VPtr t p)
  assume n: "noVerifier M v"
  show ?thesis
  proof (cases p)
    case None
    with VPtr show ?thesis by (simp add: callVerify_def)
  next
    case (Some u)
    then have "noVerifier M u" using n VPtr by simp
    then show ?thesis
      using Some VPtr valMethod_noVerifier [OF n]
      by (simp add: callVerify_def callVerifyHere_noVerifier)
  qed
qed (simp_all add: callVerify_def callVerifyHere_noVerifier)

lemma verify_noVerifier:
  "noVerifier M v \<Longrightarrow> verifyStructValues M addr v path = (None, v, [])"
  "noVerifierFields M fs \<Longrightarrow> verifyFields M addr path fs = (None, fs, [])"
proof (induction M addr v path and M addr path fs rule: verifyStructValues_verifyFields.induct)
  case (6 M addr path f rest)
  show ?case
  proof (cases "length (pkgPath f) > 0")
    case True
    then show ?thesis using 6 by simp
  next
    case False
    let ?fp = "joinPath path (fname f)"
    have nf: "noVerifier M (fval f)" and nr: "noVerifierFields M rest"
      using "6.prems" by (cases f; simp)+
    have c: "callVerify M addr (fval f) ?fp = (None, fval f, [])"
      using nf by (rule callVerify_noVerifier)
    have s: "verifyStructValues M addr (fval f) ?fp = (None, fval f, [])"
      using "6.IH"(2) [OF False refl refl] c nf by simp
    have r: "verifyFields M addr path rest = (None, rest, [])"
      using "6.IH"(3) [OF False refl refl _ refl] c s nr by simp
    show ?thesis using False c s r by (simp add: Let_def)
  qed
qed (simp_all add: Let_def)

lemma typeOf_invoke: "typeOf (snd (invoke m v)) = typeOf v"
  by (simp add: invoke_def Let_def)

lemma typeOf_runVerify: "typeOf (fst (snd (runVerify m v p))) = typeOf v"
  by (simp add: runVerify_def Let_def typeOf_invoke split: option.splits)

lemma typeOf_callVerifyHere: "typeOf (fst (snd (callVerifyHere M a v p))) = typeOf v"
  by (auto simp: callVerifyHere_def Let_def typeOf_runVerify split: option.splits val.splits)

lemma typeOf_callVerify: "typeOf (fst (snd (callVerify M a v p))) = typeOf v"
  by (auto simp: callVerify_def Let_def typeOf_callVerifyHere split: option.splits val.splits)

lemma declOf_setFval: "typeOf v = typeOf (fval f) \<Longrightarrow> declOf (setFval f v) = declOf f"
  by (cases f) simp

lemma typeOf_verify:
  "typeOf (fst (snd (verifyStructValues M a v p))) = typeOf v"
  "declsOf (fst (snd (verifyFields M a p fs))) = declsOf fs"
proof (induction M a v p and M a p fs rule: verifyStructValues_verifyFields.induct)
  case (6 M addr path f rest)
  show ?case
  proof (cases "length (pkgPath f) > 0")
    case True
    then show ?thesis using 6 by (simp add: Let_def)
  next
    case False
    let ?fp = "joinPath path (fname f)"
    let ?c = "callVerify M addr (fval f) ?fp"
    let ?s = "verifyStructValues M addr (fst (snd ?c)) ?fp"
    have tc: "typeOf (fst (snd ?c)) = typeOf (fval f)" by (rule typeOf_callVerify)
    show ?thesis
    proof (cases "fst ?c")
      case (Some e)
      then show ?thesis using False tc by (simp add: Let_def declOf_setFval)
    next
      case None
      have ts: "typeOf (fst (snd ?s)) = typeOf (fval f)"
        using "6.IH"(2) [OF False refl refl None] tc by simp
      show ?thesis
      proof (cases "fst ?s")
        case (Some e)
        then show ?thesis using False None ts by (simp add: Let_def declOf_setFval)
      next
        case n2: None
        have "declsOf (fst (snd (verifyFields M addr path rest))) = declsOf rest"
          using "6.IH"(3) [OF False refl refl None refl n2] .
        then show ?thesis using False None n2 ts by (simp add: Let_def declOf_setFval)
      qed
    qed
  qed
qed (simp_all add: Let_def)

lemma settled_again:
  assumes st: "settles M m" and ok: "fst (invoke m u) = None"
    and tr: "verifyStructValues M a (snd (invoke m u)) p = (None, u2, s)"
  shows "invoke m u2 = (None, u2)"
proof -
  let ?u1 = "snd (invoke m u)"
  from st ok have
    "((\<forall>a p. verifyStructValues M a ?u1 p = (None, ?u1, [])) \<and> invoke m ?u1 = (None, ?u1))
     \<or> (?u1 = u \<and> (\<forall>u'. typeOf u' = typeOf u \<longrightarrow> invoke m u' = (None, u')))"
    unfolding settles_def by blast
  then show ?thesis
  proof
    assume h: "(\<forall>a p. verifyStructValues M a ?u1 p = (None, ?u1, [])) \<and> invoke m ?u1 = (None, ?u1)"
    then have "u2 = ?u1" using tr by simp
    with h show ?thesis by simp
  next
    assume h: "?u1 = u \<and> (\<forall>u'. typeOf u' = typeOf u \<longrightarrow> invoke m u' = (None, u'))"
    have "typeOf u2 = typeOf ?u1"
      using typeOf_verify(1) [of M a ?u1 p] tr by simp
    with h show ?thesis by simp
  qed
qed

lemma runVerify_ok:
  "runVerify m u p = (None, u1, c) \<longleftrightarrow> fst (invoke m u) = None \<and> u1 = snd (invoke m u) \<and> c = [p]"
  by (auto simp: runVerify_def Let_def split: option.splits)

lemma runVerify_settled:
  assumes "settles M m" and "runVerify m u p = (None, u1, c)"
    and "verifyStructValues M a u1 p = (None, u2, s)"
  shows "runVerify m u2 p = (None, u2, c)"
proof -
  from assms(2) have ok: "fst (invoke m u) = None" and u1: "u1 = snd (invoke m u)" and c: "c = [p]"
    by (simp_all add: runVerify_ok)
  have "invoke m u2 = (None, u2)"
    using settled_again [OF assms(1) ok] assms(3) u1 by simp
  then show ?thesis using c by (simp add: runVerify_ok)
qed

lemma callVerifyHere_settled:
  assumes all: "\<And>n m. M n = Some m \<Longrightarrow> settles M m"
    and c1: "callVerifyHere M a v p = (None, v1, c)"
    and tr: "verifyStructValues M a v1 p = (None, v2, s)"
  shows "callVerifyHere M a v2 p = (None, v2, c)"
proof (cases v)
  case (VStruct n fs)
  have t1: "typeOf v1 = typeOf v"
    using typeOf_callVerifyHere [of M a v p] c1 by simp
  then obtain fs1 where v1: "v1 = VStruct n fs1"
    using VStruct by (cases v1) simp_all
  then obtain fs2 where v2: "v2 = VStruct n fs2"
    using tr by (auto simp: Let_def)
  have am: "addrMethod M a v2 = addrMethod M a v" and vm: "valMethod M v2 = valMethod M v"
    using VStruct v2 by (simp_all add: addrMethod_def ptrMethod_def valMethod_def)
  show ?thesis
  proof (cases "addrMethod M a v")
    case (Some m)
    then have st: "settles M m"
      using all VStruct by (simp add: addrMethod_def ptrMethod_def split: if_splits)
    have "runVerify m v p = (None, v1, c)"
      using c1 Some by (simp add: callVerifyHere_def)
    then have "runVerify m v2 p = (None, v2, c)"
      using runVerify_settled [OF st _ tr] by simp
    then show ?thesis using Some am by (simp add: callVerifyHere_def)
  next
    case None
    show ?thesis
    proof (cases "valMethod M v")
      case (Some m)
      then have st: "settles M m"
        using all VStruct by (simp add: valMethod_def split: option.splits if_splits)
      have "runVerify m v p = (None, v1, c)"
        using c1 None Some VStruct by (simp add: callVerifyHere_def)
      then have "runVerify m v2 p = (None, v2, c)"
        using runVerify_settled [OF st _ tr] by simp
      then show ?thesis using None Some am vm v2 by (simp add: callVerifyHere_def)
    next
      case n2: None
      then have "v1 = v" "c = []" using c1 None by (simp_all add: callVerifyHere_def)
      then show ?thesis using None n2 am vm by (simp add: callVerifyHere_def)
    qed
  qed
next
  case (VPtr t q)
  have am: "addrMethod M a (VPtr t q') = None" for q'
    by (simp add: addrMethod_def ptrMethod_def)
  have vm: "valMethod M (VPtr t q') = valMethod M v" for q'
    using VPtr by (simp add: valMethod_def)
  show ?thesis
  proof (cases "valMethod M v")
    case None
    then have e: "v1 = v" "c = []" using c1 VPtr am by (simp_all add: callVerifyHere_def)
    obtain q2 where v2: "v2 = VPtr t q2"
      using tr e VPtr by (cases q) (auto simp: Let_def)
    show ?thesis using None e v2 am vm by (simp add: callVerifyHere_def)
  next
    case (Some m)
    then have st: "settles M m"
      using all VPtr by (simp add: valMethod_def split: gotype.splits)
    show ?thesis
    proof (cases q)
      case None
      then show ?thesis using c1 VPtr Some am by (simp add: callVerifyHere_def)
    next
      case q: (Some w)
      let ?r = "runVerify m w p"
      have v1: "v1 = VPtr t (Some (fst (snd ?r)))" and ok: "fst ?r = None" and c: "c = snd (snd ?r)"
        using c1 VPtr q Some am by (simp_all add: callVerifyHere_def Let_def)
      then have r: "?r = (None, fst (snd ?r), c)" by (metis prod.collapse)
      obtain w2 where w2: "verifyStructValues M True (fst (snd ?r)) p = (None, w2, s)"
        and v2: "v2 = VPtr t (Some w2)"
        using tr v1 by (auto simp: Let_def split: prod.splits) (metis prod.collapse)
      have "runVerify m w2 p = (None, w2, c)"
        using runVerify_settled [OF st r w2] .
      then show ?thesis using v2 Some am vm by (simp add: callVerifyHere_def Let_def)
    qed
  qed
qed (use c1 tr in \<open>auto simp: callVerifyHere_def addrMethod_def ptrMethod_def valMethod_def\<close>)

lemma callVerify_plain:
  "typeOf v \<noteq> TInvalid \<Longrightarrow> (\<forall>t. typeOf v \<noteq> TPtr t) \<Longrightarrow>
   callVerify M a v p = callVerifyHere M a v p"
  by (cases v) (simp_all add: callVerify_def)

lemma callVerify_plain_settled:
  assumes all: "\<And>n m. M n = Some m \<Longrightarrow> settles M m"
    and plain: "typeOf v \<noteq> TInvalid \<and> (\<forall>t. typeOf v \<noteq> TPtr t)"
    and c1: "callVerify M a v p = (None, v1, c)"
    and tr: "verifyStructValues M a v1 p = (None, v2, s)"
  shows "callVerify M a v2 p = (None, v2, c)"
proof -
  have "typeOf v1 = typeOf v"
    using typeOf_callVerify [of M a v p] c1 by simp
  moreover have "typeOf v2 = typeOf v1"
    using typeOf_verify(1) [of M a v1 p] tr by simp
  ultimately have p2: "typeOf v2 \<noteq> TInvalid" "\<forall>t. typeOf v2 \<noteq> TPtr t"
    using plain by simp_all
  have "callVerifyHere M a v p = (None, v1, c)"
    using c1 plain by (simp add: callVerify_plain)
  then have "callVerifyHere M a v2 p = (None, v2, c)"
    using callVerifyHere_settled [OF all _ tr] by simp
  then show ?thesis using p2 by (simp add: callVerify_plain)
qed

lemma callVerify_settled:
  assumes all: "\<And>n m. M n = Some m \<Longrightarrow> settles M m"
    and c1: "callVerify M a v p = (None, v1, c)"
    and tr: "verifyStructValues M a v1 p = (None, v2, s)"
  shows "callVerify M a v2 p = (None, v2, c)"
proof -
  consider (VPtr) t q where "v = VPtr t q" | (Invalid) "v = Invalid"
    | (plain) "typeOf v \<noteq> TInvalid \<and> (\<forall>t. typeOf v \<noteq> TPtr t)"
    by (cases v) auto
  then show ?thesis
  proof cases
  case (VPtr t q)
  have vm: "valMethod M (VPtr t q') = valMethod M v" for q'
    using VPtr by (simp add: valMethod_def)
  show ?thesis
  proof (cases q)
    case None
    then show ?thesis using c1 tr VPtr by (auto simp: callVerify_def)
  next
    case q: (Some u)
    show ?thesis
    proof (cases "valMethod M v")
      case (Some m)
      then have st: "settles M m"
        using all VPtr by (simp add: valMethod_def split: gotype.splits)
      let ?r = "runVerify m u p"
      have v1: "v1 = VPtr t (Some (fst (snd ?r)))" and ok: "fst ?r = None" and c: "c = snd (snd ?r)"
        using c1 VPtr q Some by (simp_all add: callVerify_def Let_def)
      then have r: "?r = (None, fst (snd ?r), c)" by (metis prod.collapse)
      obtain u2 where u2: "verifyStructValues M True (fst (snd ?r)) p = (None, u2, s)"
        and v2: "v2 = VPtr t (Some u2)"
        using tr v1 by (auto simp: Let_def split: prod.splits) (metis prod.collapse)
      have "runVerify m u2 p = (None, u2, c)"
        using runVerify_settled [OF st r u2] .
      then show ?thesis using v2 Some vm by (simp add: callVerify_def Let_def)
    next
      case None
      let ?r = "callVerifyHere M True u p"
      have v1: "v1 = VPtr t (Some (fst (snd ?r)))" and ok: "fst ?r = None" and c: "c = snd (snd ?r)"
        using c1 VPtr q None by (simp_all add: callVerify_def Let_def)
      then have r: "?r = (None, fst (snd ?r), c)" by (metis prod.collapse)
      obtain u2 where u2: "verifyStructValues M True (fst (snd ?r)) p = (None, u2, s)"
        and v2: "v2 = VPtr t (Some u2)"
        using tr v1 by (auto simp: Let_def split: prod.splits) (metis prod.collapse)
      have "callVerifyHere M True u2 p = (None, u2, c)"
        using callVerifyHere_settled [OF all r u2] by simp
      then show ?thesis using v2 None vm by (simp add: callVerify_def Let_def)
    qed
  qed
next
  case Invalid
  then show ?thesis using c1 tr by (auto simp: callVerify_def)
  next
    case plain
    show ?thesis
      using all plain c1 tr by (rule callVerify_plain_settled)
  qed
qed

lemma verify_settled:
  "\<forall>n m. M n = Some m \<longrightarrow> settles M m \<Longrightarrow>
   verifyStructValues M a v p = (None, v', c) \<Longrightarrow> verifyStructValues M a v' p = (None, v', c)"
  "\<forall>n m. M n = Some m \<longrightarrow> settles M m \<Longrightarrow>
   verifyFields M a p fs = (None, fs', c) \<Longrightarrow> verifyFields M a p fs' = (None, fs', c)"
proof (induction M a v p and M a p fs arbitrary: v' c and fs' c
    rule: verifyStructValues_verifyFields.induct)
  case (2 M addr t u path)
  let ?r = "verifyStructValues M True u path"
  from "2.prems"(2) have ok: "fst ?r = None" and v': "v' = VPtr t (Some (fst (snd ?r)))"
    and c: "c = snd (snd ?r)"
    by (simp_all add: Let_def)
  then have "?r = (None, fst (snd ?r), c)" by (metis prod.collapse)
  then have "verifyStructValues M True (fst (snd ?r)) path = (None, fst (snd ?r), c)"
    using "2.IH" "2.prems"(1) by blast
  then show ?case using v' by (simp add: Let_def)
next
  case (3 M addr n fs path)
  let ?r = "verifyFields M addr path fs"
  from "3.prems"(2) have ok: "fst ?r = None" and v': "v' = VStruct n (fst (snd ?r))"
    and c: "c = snd (snd ?r)"
    by (simp_all add: Let_def)
  then have "?r = (None, fst (snd ?r), c)" by (metis prod.collapse)
  then have "verifyFields M addr path (fst (snd ?r)) = (None, fst (snd ?r), c)"
    using "3.IH" "3.prems"(1) by blast
  then show ?case using v' by (simp add: Let_def)
next
  case (6 M addr path f rest)
  note all = "6.prems"(1)
  show ?case
  proof (cases "length (pkgPath f) > 0")
    case True
    let ?r = "verifyFields M addr path rest"
    from "6.prems"(2) True have ok: "fst ?r = None" and fs': "fs' = f # fst (snd ?r)"
      and c: "c = snd (snd ?r)"
      by (simp_all add: Let_def)
    then have "?r = (None, fst (snd ?r), c)" by (metis prod.collapse)
    then have "verifyFields M addr path (fst (snd ?r)) = (None, fst (snd ?r), c)"
      using "6.IH"(1) [OF True] all by blast
    then show ?thesis using fs' True by (simp add: Let_def)
  next
    case False
    let ?fp = "joinPath path (fname f)"
    let ?c = "callVerify M addr (fval f) ?fp"
    let ?s = "verifyStructValues M addr (fst (snd ?c)) ?fp"
    let ?r = "verifyFields M addr path rest"
    have okc: "fst ?c = None"
      using "6.prems"(2) False by (cases "fst ?c") (simp_all add: Let_def)
    have oks: "fst ?s = None"
      using "6.prems"(2) False okc by (cases "fst ?s") (simp_all add: Let_def)
    have okr: "fst ?r = None" and fs': "fs' = setFval f (fst (snd ?s)) # fst (snd ?r)"
      and c: "c = snd (snd ?c) @ snd (snd ?s) @ snd (snd ?r)"
      using "6.prems"(2) False okc oks by (simp_all add: Let_def)
    have ce: "?c = (None, fst (snd ?c), snd (snd ?c))" using okc by (metis prod.collapse)
    have se: "?s = (None, fst (snd ?s), snd (snd ?s))" using oks by (metis prod.collapse)
    have re: "?r = (None, fst (snd ?r), snd (snd ?r))" using okr by (metis prod.collapse)
    have c2: "callVerify M addr (fst (snd ?s)) ?fp = (None, fst (snd ?s), snd (snd ?c))"
    proof (rule callVerify_settled [OF _ ce se])
      fix n m assume "M n = Some m"
      then show "settles M m" using all by blast
    qed
    have s2: "verifyStructValues M addr (fst (snd ?s)) ?fp = (None, fst (snd ?s), snd (snd ?s))"
      using "6.IH"(2) [OF False refl refl okc _ se] all by blast
    have r2: "verifyFields M addr path (fst (snd ?r)) = (None, fst (snd ?r), snd (snd ?r))"
      using "6.IH"(3) [OF False refl refl okc refl oks _ re] all by blast
    have n: "fname (setFval f x) = fname f" "pkgPath (setFval f x) = pkgPath f"
      "setFval (setFval f x) y = setFval f y" for x y
      by (cases f; simp)+
    show ?thesis
      using False c2 s2 r2 fs' c n by (simp add: Let_def)
  qed
qed (auto simp: Let_def)

lemma verifySubStructsAt_settled:
  "\<forall>n m. M n = Some m \<longrightarrow> settles M m \<Longrightarrow>
   verifySubStructsAt M a cfg = (None, cfg', c) \<Longrightarrow> verifySubStructsAt M a cfg' = (None, cfg', c)"
proof (induction M a cfg arbitrary: cfg' c rule: verifySubStructsAt.induct)
  case (2 M addr t u)
  let ?r = "verifySubStructsAt M True u"
  from "2.prems"(2) have ok: "fst ?r = None" and v': "cfg' = VPtr t (Some (fst (snd ?r)))"
    and c: "c = snd (snd ?r)"
    by (simp_all add: Let_def)
  then have "?r = (None, fst (snd ?r), c)" by (metis prod.collapse)
  then have "verifySubStructsAt M True (fst (snd ?r)) = (None, fst (snd ?r), c)"
    using "2.IH" "2.prems"(1) by blast
  then show ?case using v' by (simp add: Let_def)
next
  case (3 M addr n fs)
  from "3.prems"(2) have r: "verifyStructValues M addr (VStruct n fs) n = (None, cfg', c)"
    by simp
  then obtain fs2 where cfg': "cfg' = VStruct n fs2"
    by (auto simp: Let_def)
  have "verifyStructValues M addr cfg' n = (None, cfg', c)"
    using verify_settled(1) [OF "3.prems"(1) r] .
  then show ?case using cfg' by simp
qed (auto simp: Let_def)

lemma settles_sectionMethod:
  assumes ty: "\<And>r. typeOf (enc r) = T" and w: "\<And>r. wt (enc r)"
    and de: "\<And>r. dec (enc r) = r"
    and idem: "\<And>r r'. verify r = (None, r') \<Longrightarrow> verify r' = (None, r')"
    and inert: "\<And>r a p. verifyStructValues M a (enc r) p = (None, enc r, [])"
  shows "settles M (sectionMethod T dec enc verify)"
  unfolding settles_def
proof (intro allI impI)
  fix u
  let ?m = "sectionMethod T dec enc verify"
  assume ok: "fst (invoke ?m u) = None"
  show "((\<forall>a p. verifyStructValues M a (snd (invoke ?m u)) p = (None, snd (invoke ?m u), []))
          \<and> invoke ?m (snd (invoke ?m u)) = (None, snd (invoke ?m u)))
        \<or> (snd (invoke ?m u) = u \<and> (\<forall>u'. typeOf u' = typeOf u \<longrightarrow> invoke ?m u' = (None, u')))"
  proof (cases "typeOf u = T")
    case True
    obtain e r' where v: "verify (dec u) = (e, r')" by (cases "verify (dec u)")
    have i: "invoke ?m u = (e, enc r')"
      using True v ty w by (simp add: invoke_def sectionMethod_def Let_def)
    then have e: "e = None" using ok by simp
    then have "verify r' = (None, r')" using v idem by blast
    then have "invoke ?m (enc r') = (None, enc r')"
      using ty w de by (simp add: invoke_def sectionMethod_def Let_def)
    then show ?thesis using i inert by simp
  next
    case False
    then have "invoke ?m u' = (None, u')" if "typeOf u' = typeOf u" for u'
      using that by (simp add: invoke_def sectionMethod_def Let_def)
    then show ?thesis by simp
  qed
qed

lemma inert_struct:
  "noVerifierFields M fs \<Longrightarrow> verifyStructValues M a (VStruct n fs) p = (None, VStruct n fs, [])"
  by (simp add: verify_noVerifier(2) Let_def)

lemma inert_mkStruct:
  "noVerifierFields M (mkFields ds vs) \<Longrightarrow>
   verifyStructValues M a (mkStruct (TStruct n ds) vs) p = (None, mkStruct (TStruct n ds) vs, [])"
  unfolding mkStruct.simps by (rule inert_struct)

lemmas type_defs =
  tLoggingSyslogConfig_def tLoggingConfig_def databaseFields_def tMySQLDatabase_def
  tPostgresDatabase_def tRedisConfig_def tSMTPConfig_def tHTTPSessionCookieConfig_def
  tHTTPStaticCertConfig_def tHTTPACMEConfig_def tHTTPConfig_def tConfig_def pkg_def

lemmas enc_defs =
  encLoggingSyslogConfig_def encLoggingConfig_def encMySQLDatabase_def encPostgresDatabase_def
  encRedisConfig_def encSMTPConfig_def encHTTPSessionCookieConfig_def
  encHTTPStaticCertConfig_def encHTTPACMEConfig_def encHTTPConfig_def encConfig_def

lemmas dec_defs =
  decLoggingSyslogConfig_def decLoggingConfig_def decMySQLDatabase_def decPostgresDatabase_def
  decRedisConfig_def decSMTPConfig_def decHTTPSessionCookieConfig_def
  decHTTPStaticCertConfig_def decHTTPACMEConfig_def decHTTPConfig_def decConfig_def

lemma wtElems_strings: "wtElems TString (map VString xs)"
  by (induction xs) simp_all

lemma strsOf_strings: "map (strOf \<circ> VString) xs = xs"
  by (induction xs) simp_all

lemma LoggingConfig_view:
  "typeOf (encLoggingConfig r) = tLoggingConfig" "wt (encLoggingConfig r)"
  "decLoggingConfig (encLoggingConfig r) = r"
  by (simp_all add: enc_defs dec_defs type_defs packageMethods_def inert_struct)

lemma LoggingConfig_inert:
  "verifyStructValues (packageMethods W) a (encLoggingConfig r) p = (None, encLoggingConfig r, [])"
  unfolding encLoggingConfig_def tLoggingConfig_def
  by (rule inert_mkStruct) (simp add: enc_defs type_defs packageMethods_def)

lemma MySQLDatabase_view:
  "typeOf (encMySQLDatabase r) = tMySQLDatabase" "wt (encMySQLDatabase r)"
  "decMySQLDatabase (encMySQLDatabase r) = r"
  by (simp_all add: enc_defs dec_defs type_defs packageMethods_def inert_struct)

lemma MySQLDatabase_inert:
  "verifyStructValues (packageMethods W) a (encMySQLDatabase r) p = (None, encMySQLDatabase r, [])"
  unfolding encMySQLDatabase_def tMySQLDatabase_def databaseFields_def
  by (rule inert_mkStruct) (simp add: enc_defs type_defs packageMethods_def)

lemma PostgresDatabase_view:
  "typeOf (encPostgresDatabase r) = tPostgresDatabase" "wt (encPostgresDatabase r)"
  "decPostgresDatabase (encPostgresDatabase r) = r"
  by (simp_all add: enc_defs dec_defs type_defs packageMethods_def inert_struct)

lemma PostgresDatabase_inert:
  "verifyStructValues (packageMethods W) a (encPostgresDatabase r) p = (None, encPostgresDatabase r, [])"
  unfolding encPostgresDatabase_def tPostgresDatabase_def databaseFields_def
  by (rule inert_mkStruct) (simp add: enc_defs type_defs packageMethods_def)

lemma RedisConfig_view:
  "typeOf (encRedisConfig r) = tRedisConfig" "wt (encRedisConfig r)"
  "decRedisConfig (encRedisConfig r) = r"
  by (simp_all add: enc_defs dec_defs type_defs packageMethods_def inert_struct)

lemma RedisConfig_inert:
  "verifyStructValues (packageMethods W) a (encRedisConfig r) p = (None, encRedisConfig r, [])"
  unfolding encRedisConfig_def tRedisConfig_def
  by (rule inert_mkStruct) (simp add: enc_defs type_defs packageMethods_def)

lemma HTTPConfig_view:
  "typeOf (encHTTPConfig r) = tHTTPConfig" "wt (encHTTPConfig r)"
  "decHTTPConfig (encHTTPConfig r) = r"
  by (simp_all add: enc_defs dec_defs type_defs packageMethods_def inert_struct
      wtElems_strings strsOf_strings)

lemma HTTPConfig_inert:
  "verifyStructValues (packageMethods W) a (encHTTPConfig r) p = (None, encHTTPConfig r, [])"
  unfolding encHTTPConfig_def tHTTPConfig_def
  by (rule inert_mkStruct) (simp add: enc_defs type_defs packageMethods_def)

lemma facility_nonempty: "map_of logFacilityString2Int s = Some x \<Longrightarrow> s \<noteq> []"
  by (auto simp: logFacilityString2Int_def)

lemma severity_nonempty: "map_of logSeverityString2Int s = Some x \<Longrightarrow> s \<noteq> []"
  by (auto simp: logSeverityString2Int_def)

lemma LoggingConfig_Verify_twice:
  assumes "LoggingConfig_Verify c = (None, c')"
  shows "LoggingConfig_Verify c' = (None, c')"
proof -
  define s0 where "s0 = Syslog c"
  define s1 where "s1 = (if length (FacilityString s0) = 0
      then s0\<lparr>FacilityString := ''LOG_LOCAL5''\<rparr> else s0)"
  define s2 where "s2 = (if length (SeverityString s1) = 0
      then s1\<lparr>SeverityString := ''LOG_INFO''\<rparr> else s1)"
  have v: "LoggingConfig_Verify c =
      (case map_of logFacilityString2Int (FacilityString s2) of
         None \<Rightarrow> (Some (Errorf (''invalid logging facility specified: ''
                     @ quoted (FacilityString s2))), c\<lparr>Syslog := s2\<rparr>)
       | Some facility \<Rightarrow>
           (case map_of logSeverityString2Int (SeverityString s2) of
              None \<Rightarrow> (Some (Errorf (''invalid logging severity specified: ''
                          @ quoted (SeverityString s2))), c\<lparr>Syslog := s2\<rparr>)
            | Some severity \<Rightarrow>
                (None, c\<lparr>Syslog := s2\<lparr>priority := facility OR severity\<rparr>\<rparr>)))"
    unfolding LoggingConfig_Verify_def s0_def s1_def s2_def Let_def by (rule refl)
  obtain fac where fac: "map_of logFacilityString2Int (FacilityString s2) = Some fac"
    using assms v by (cases "map_of logFacilityString2Int (FacilityString s2)") simp_all
  obtain sev where sev: "map_of logSeverityString2Int (SeverityString s2) = Some sev"
    using assms v fac by (cases "map_of logSeverityString2Int (SeverityString s2)") simp_all
  have c': "c' = c\<lparr>Syslog := s2\<lparr>priority := fac OR sev\<rparr>\<rparr>"
    using assms v fac sev by simp
  have ne: "FacilityString s2 \<noteq> []" "SeverityString s2 \<noteq> []"
    using facility_nonempty [OF fac] severity_nonempty [OF sev] by simp_all
  show ?thesis
    using fac sev ne by (simp add: LoggingConfig_Verify_def c' Let_def)
qed

lemma MySQLDatabase_Verify_twice:
  assumes "MySQLDatabase_Verify W c = (None, c')"
  shows "MySQLDatabase_Verify W c' = (None, c')"
proof (cases "MySQLDatabase.ConnectString c = []")
  case False
  then show ?thesis using assms by (simp add: MySQLDatabase_Verify_def)
next
  case True
  then have "MySQLDatabase.ConnectString c' \<noteq> []"
    using assms
    by (auto simp: MySQLDatabase_Verify_def Let_def split: if_splits option.splits)
  then show ?thesis by (simp add: MySQLDatabase_Verify_def)
qed

lemma PostgresDatabase_Verify_twice:
  assumes "PostgresDatabase_Verify W c = (None, c')"
  shows "PostgresDatabase_Verify W c' = (None, c')"
proof (cases "PostgresDatabase.ConnectString c = []")
  case False
  then show ?thesis using assms by (simp add: PostgresDatabase_Verify_def)
next
  case True
  then have "PostgresDatabase.ConnectString c' \<noteq> []"
    using assms
    by (auto simp: PostgresDatabase_Verify_def Let_def split: if_splits option.splits)
  then show ?thesis by (simp add: PostgresDatabase_Verify_def)
qed

lemma RedisConfig_Verify_twice:
  assumes "RedisConfig_Verify c = (None, c')"
  shows "RedisConfig_Verify c' = (None, c')"
proof -
  have s: "RedisConfig.Server c \<noteq> []"
    using assms by (auto simp: RedisConfig_Verify_def split: if_splits)
  have "RedisConfig.Server c' \<noteq> [] \<and> MaxIdle c' \<noteq> 0 \<and> MaxActive c' \<noteq> 0 \<and> IdleTimeout c' \<noteq> 0"
    using assms s by (auto simp: RedisConfig_Verify_def Let_def split: if_splits)
  then show ?thesis by (simp add: RedisConfig_Verify_def Let_def)
qed

lemma HTTPConfig_Verify_twice:
  assumes "HTTPConfig_Verify W c = (None, c')"
  shows "HTTPConfig_Verify W c' = (None, c')"
proof -
  have "snd (HTTPConfig_Verify W c) = c"
    by (simp add: HTTPConfig_Verify_def split: list.splits option.splits)
  then have "c' = c" using assms by simp
  then show ?thesis using assms by simp
qed

lemma packageMethods_settle:
  "\<forall>n m. packageMethods W n = Some m \<longrightarrow> settles (packageMethods W) m"
proof (intro allI impI)
  fix n m
  assume a: "packageMethods W n = Some m"
  have l: "settles (packageMethods W)
      (sectionMethod tLoggingConfig decLoggingConfig encLoggingConfig LoggingConfig_Verify)"
    by (rule settles_sectionMethod)
      (simp_all add: LoggingConfig_view LoggingConfig_inert LoggingConfig_Verify_twice)
  have my: "settles (packageMethods W)
      (sectionMethod tMySQLDatabase decMySQLDatabase encMySQLDatabase (MySQLDatabase_Verify W))"
    by (rule settles_sectionMethod)
      (simp_all add: MySQLDatabase_view MySQLDatabase_inert MySQLDatabase_Verify_twice)
  have pg: "settles (packageMethods W)
      (sectionMethod tPostgresDatabase decPostgresDatabase encPostgresDatabase
         (PostgresDatabase_Verify W))"
    by (rule settles_sectionMethod)
      (simp_all add: PostgresDatabase_view PostgresDatabase_inert PostgresDatabase_Verify_twice)
  have r: "settles (packageMethods W)
      (sectionMethod tRedisConfig decRedisConfig encRedisConfig RedisConfig_Verify)"
    by (rule settles_sectionMethod)
      (simp_all add: RedisConfig_view RedisConfig_inert RedisConfig_Verify_twice)
  have h: "settles (packageMethods W)
      (sectionMethod tHTTPConfig decHTTPConfig encHTTPConfig (HTTPConfig_Verify W))"
    by (rule settles_sectionMethod)
      (simp_all add: HTTPConfig_view HTTPConfig_inert HTTPConfig_Verify_twice)
  from a have "m = sectionMethod tLoggingConfig decLoggingConfig encLoggingConfig LoggingConfig_Verify
      \<or> m = sectionMethod tMySQLDatabase decMySQLDatabase encMySQLDatabase (MySQLDatabase_Verify W)
      \<or> m = sectionMethod tPostgresDatabase decPostgresDatabase encPostgresDatabase
            (PostgresDatabase_Verify W)
      \<or> m = sectionMethod tRedisConfig decRedisConfig encRedisConfig RedisConfig_Verify
      \<or> m = sectionMethod tHTTPConfig decHTTPConfig encHTTPConfig (HTTPConfig_Verify W)"
    by (simp add: packageMethods_def split: if_splits)
  then show "settles (packageMethods W) m"
    using l my pg r h by blast
qed

text \<open>
  C8. With the validators of the package, a validation pass that has succeeded succeeds
  again on the tree it left, changes nothing in it and makes the same calls. This holds
  for every tree, whatever its types; the world (the network that \<^verbatim>\<open>HTTPConfig.Verify\<close>
  asks) is the same in both passes.
\<close>

theorem validate_twice:
  "verifySubStructs (packageMethods W) cfg = (None, cfg', calls) \<Longrightarrow>
   verifySubStructs (packageMethods W) cfg' = (None, cfg', calls)"
  unfolding verifySubStructs_def
  by (rule verifySubStructsAt_settled [OF packageMethods_settle])

section \<open>The pass on the configuration of the package\<close>

lemma callVerify_section:
  assumes m: "M n = Some (sectionMethod T dec enc verify)"
    and ty: "\<And>r. typeOf (enc r) = T" and w: "\<And>r. wt (enc r)" and de: "\<And>r. dec (enc r) = r"
    and st: "case T of TStruct n' ds \<Rightarrow> n' = n | _ \<Rightarrow> False"
  shows "callVerify M True (enc r) p
    = (map_option (VerifyError p) (fst (verify r)), enc (snd (verify r)), [p])"
proof -
  obtain ds where "T = TStruct n ds" using st by (cases T) simp_all
  then have "typeOf (enc r) = TStruct n ds" using ty by simp
  then obtain fs where e: "enc r = VStruct n fs" by (cases "enc r") simp_all
  have i: "invoke (sectionMethod T dec enc verify) (enc r) = (fst (verify r), enc (snd (verify r)))"
    using ty w de by (simp add: invoke_def sectionMethod_def Let_def)
  have "callVerify M True (enc r) p = runVerify (sectionMethod T dec enc verify) (enc r) p"
    unfolding e using m by (simp add: callVerify_struct ptrMethod_def)
  then show ?thesis
    using i by (cases "fst (verify r)") (simp_all add: runVerify_def Let_def)
qed

lemma call_LoggingConfig:
  "callVerify (packageMethods W) True (encLoggingConfig r) p
    = (map_option (VerifyError p) (fst (LoggingConfig_Verify r)),
       encLoggingConfig (snd (LoggingConfig_Verify r)), [p])"
  by (rule callVerify_section [where n = "''LoggingConfig''" and T = tLoggingConfig and dec = decLoggingConfig];
      simp add: packageMethods_def LoggingConfig_view tLoggingConfig_def)

lemma call_MySQLDatabase:
  "callVerify (packageMethods W) True (encMySQLDatabase r) p
    = (map_option (VerifyError p) (fst (MySQLDatabase_Verify W r)),
       encMySQLDatabase (snd (MySQLDatabase_Verify W r)), [p])"
  by (rule callVerify_section [where n = "''MySQLDatabase''" and T = tMySQLDatabase and dec = decMySQLDatabase];
      simp add: packageMethods_def MySQLDatabase_view tMySQLDatabase_def)

lemma call_RedisConfig:
  "callVerify (packageMethods W) True (encRedisConfig r) p
    = (map_option (VerifyError p) (fst (RedisConfig_Verify r)),
       encRedisConfig (snd (RedisConfig_Verify r)), [p])"
  by (rule callVerify_section [where n = "''RedisConfig''" and T = tRedisConfig and dec = decRedisConfig];
      simp add: packageMethods_def RedisConfig_view tRedisConfig_def)

lemma call_HTTPConfig:
  "callVerify (packageMethods W) True (encHTTPConfig r) p
    = (map_option (VerifyError p) (fst (HTTPConfig_Verify W r)),
       encHTTPConfig (snd (HTTPConfig_Verify W r)), [p])"
  by (rule callVerify_section [where n = "''HTTPConfig''" and T = tHTTPConfig and dec = decHTTPConfig];
      simp add: packageMethods_def HTTPConfig_view tHTTPConfig_def)

lemma SMTPConfig_noVerifier: "noVerifier (packageMethods W) (encSMTPConfig r)"
  by (simp add: encSMTPConfig_def tSMTPConfig_def packageMethods_def)

lemma verify_Config:
  "verifySubStructs (packageMethods W) (VPtr t (Some (encConfig c))) =
     (case LoggingConfig_Verify (Logging c) of
        (Some e, l) \<Rightarrow>
          (Some (VerifyError ''Config.Logging'' e),
           VPtr t (Some (encConfig (c\<lparr>Logging := l\<rparr>))), [''Config.Logging''])
      | (None, l) \<Rightarrow>
          (case MySQLDatabase_Verify W (Database c) of
             (Some e, d) \<Rightarrow>
               (Some (VerifyError ''Config.Database'' e),
                VPtr t (Some (encConfig (c\<lparr>Logging := l, Database := d\<rparr>))),
                [''Config.Logging'', ''Config.Database''])
           | (None, d) \<Rightarrow>
               (case RedisConfig_Verify (Redis c) of
                  (Some e, r) \<Rightarrow>
                    (Some (VerifyError ''Config.Redis'' e),
                     VPtr t (Some (encConfig (c\<lparr>Logging := l, Database := d, Redis := r\<rparr>))),
                     [''Config.Logging'', ''Config.Database'', ''Config.Redis''])
                | (None, r) \<Rightarrow>
                    (case HTTPConfig_Verify W (HTTP c) of
                       (Some e, h) \<Rightarrow>
                         (Some (VerifyError ''Config.HTTP'' e),
                          VPtr t (Some (encConfig
                            (c\<lparr>Logging := l, Database := d, Redis := r, HTTP := h\<rparr>))),
                          [''Config.Logging'', ''Config.Database'', ''Config.Redis'',
                           ''Config.HTTP''])
                     | (None, h) \<Rightarrow>
                         (None,
                          VPtr t (Some (encConfig
                            (c\<lparr>Logging := l, Database := d, Redis := r, HTTP := h\<rparr>))),
                          [''Config.Logging'', ''Config.Database'', ''Config.Redis'',
                           ''Config.HTTP''])))))"
  by (simp add: verifySubStructs_def encConfig_def tConfig_def Let_def joinPath_def
      call_LoggingConfig call_MySQLDatabase call_RedisConfig call_HTTPConfig
      LoggingConfig_inert MySQLDatabase_inert RedisConfig_inert HTTPConfig_inert
      callVerify_noVerifier [OF SMTPConfig_noVerifier]
      verify_noVerifier(1) [OF SMTPConfig_noVerifier]
      split: prod.splits option.splits)

lemma LookupEnv_empty: "LookupEnv (exampleWorld []) k = None"
  by (simp add: exampleWorld_def)

lemma Read_Config_empty_world:
  "Read (exampleWorld []) (packageMethods (exampleWorld [])) filename
      (VPtr tConfig (Some (encConfig c)))
   = (let r = verifySubStructs (packageMethods (exampleWorld [])) (VPtr tConfig (Some (encConfig c)))
      in \<lparr>failure = fst r, target = fst (snd r), filesRead = [filename],
          verifyCalls = snd (snd r)\<rparr>)"
proof -
  let ?cfg = "VPtr tConfig (Some (encConfig c))"
  have v: "validateConfigPointer ?cfg = None"
    by (simp add: validateConfigPointer_def encConfig_def tConfig_def)
  have e: "applyEnvOverrides (exampleWorld []) ?cfg = (None, ?cfg)"
    unfolding applyEnvOverrides_def by (rule applyEnv_quiet(1)) (simp add: LookupEnv_empty)
  have w: "ReadFile (exampleWorld []) filename = Inr []"
    "Unmarshal (exampleWorld []) [] ?cfg = (None, ?cfg)"
    by (simp_all add: exampleWorld_def)
  show ?thesis
    unfolding Read_def by (simp only: v e w option.case sum.case prod.case)
qed

lemma zero_Config:
  "zero tConfig = encConfig
     \<lparr>Logging = \<lparr>SyslogEnabled = False,
                  Syslog = \<lparr>FacilityString = [], SeverityString = [], priority = 0\<rparr>\<rparr>,
      Database = \<lparr>MySQLDatabase.Server = [], MySQLDatabase.User = [],
                   MySQLDatabase.Password = [], MySQLDatabase.DB = [],
                   MySQLDatabase.Params = [], MySQLDatabase.ConnectString = []\<rparr>,
      Redis = \<lparr>RedisConfig.Server = [], RedisConfig.User = [],
                RedisConfig.Password = [], DatabaseIndex = [], MaxIdle = 0, MaxActive = 0,
                IdleTimeout = 0\<rparr>,
      SMTP = \<lparr>SMTPConfig.Server = [], Port = 0, SMTPConfig.User = [],
               SMTPConfig.Password = [], From = []\<rparr>,
      HTTP = \<lparr>SSLBindAddr = [], BindAddr = [], TemplatePath = [],
               ExternalHostName = [], SkipHostNameTest = False,
               Session = \<lparr>HashKey = [], EncryptKey = [], Domain' = []\<rparr>,
               StaticCert = \<lparr>SSLCertFile = [], SSLPrivateKeyFile = []\<rparr>,
               ACME = \<lparr>Email = [], CADirURL = [], DiskCache = []\<rparr>\<rparr>\<rparr>"
  by (simp add: enc_defs type_defs)

theorem verify_failure_path_counterexample:
  "failure (Read (exampleWorld []) (packageMethods (exampleWorld [])) ''config.yaml''
      (VPtr tConfig (Some (zero tConfig))))
     = Some (VerifyError ''Config.Database''
         (Errorf ''missing Database Password (or DBPASS environment variable)''))"
  unfolding zero_Config Read_Config_empty_world verify_Config
  by (simp add: LoggingConfig_Verify_def MySQLDatabase_Verify_def logFacilityString2Int_def
      logSeverityString2Int_def Let_def)

theorem validate_twice_witness:
  "verifySubStructs (packageMethods (exampleWorld []))
      (VPtr tConfig (Some (encConfig validatedConfig)))
     = (None, VPtr tConfig (Some (encConfig validatedConfig)),
        [''Config.Logging'', ''Config.Database'', ''Config.Redis'', ''Config.HTTP''])"
proof -
  have "verifySubStructs (packageMethods (exampleWorld []))
      (VPtr tConfig (Some (encConfig exampleConfig)))
     = (None, VPtr tConfig (Some (encConfig validatedConfig)),
        [''Config.Logging'', ''Config.Database'', ''Config.Redis'', ''Config.HTTP''])"
    unfolding verify_Config
    by (simp add: exampleConfig_def validatedConfig_def LoggingConfig_Verify_def
        MySQLDatabase_Verify_def RedisConfig_Verify_def HTTPConfig_Verify_def
        logFacilityString2Int_def logSeverityString2Int_def exampleWorld_def Let_def)
  then show ?thesis by (rule validate_twice)
qed

section \<open>The root, the visits and the unexported fields\<close>

lemma joinPath_prefix: "\<exists>x. joinPath p name = p @ x"
  by (simp add: joinPath_def)

lemma calls_below:
  "\<forall>q \<in> set (snd (snd (verifyStructValues M a v p))). \<exists>name rest. q = joinPath p name @ rest"
  "\<forall>q \<in> set (snd (snd (verifyFields M a p fs))). \<exists>name rest. q = joinPath p name @ rest"
proof (induction M a v p and M a p fs rule: verifyStructValues_verifyFields.induct)
  case (6 M addr path f rest)
  show ?case
  proof (cases "length (pkgPath f) > 0")
    case True
    then show ?thesis using "6.IH"(1) by (simp add: Let_def)
  next
    case False
    let ?fp = "joinPath path (fname f)"
    let ?c = "callVerify M addr (fval f) ?fp"
    let ?s = "verifyStructValues M addr (fst (snd ?c)) ?fp"
    let ?r = "verifyFields M addr path rest"
    let ?P = "\<lambda>q. \<exists>name rest. q = joinPath path name @ rest"
    have pc: "\<forall>q \<in> set (snd (snd ?c)). ?P q"
    proof
      fix q assume "q \<in> set (snd (snd ?c))"
      then have "q = ?fp" using callVerify_calls [of M addr "fval f" ?fp] by auto
      then have "q = joinPath path (fname f) @ []" by simp
      then show "?P q" by blast
    qed
    have ps: "\<forall>q \<in> set (snd (snd ?s)). ?P q" if h: "fst ?c = None"
    proof
      fix q assume "q \<in> set (snd (snd ?s))"
      then obtain name' rest' where "q = joinPath ?fp name' @ rest'"
        using "6.IH"(2) [OF False refl refl h] by blast
      moreover obtain x where "joinPath ?fp name' = ?fp @ x"
        using joinPath_prefix by blast
      ultimately have "q = joinPath path (fname f) @ (x @ rest')" by simp
      then show "?P q" by blast
    qed
    have pr: "\<forall>q \<in> set (snd (snd ?r)). ?P q" if "fst ?c = None" "fst ?s = None"
      using "6.IH"(3) [OF False refl refl that(1) refl that(2)] .
    show ?thesis
    proof (cases "fst ?c")
      case (Some e)
      then show ?thesis using False pc by (simp add: Let_def)
    next
      case None
      show ?thesis
      proof (cases "fst ?s")
        case (Some e)
        then show ?thesis using False None pc ps [OF None] by (auto simp: Let_def)
      next
        case n2: None
        then show ?thesis
          using False None pc ps [OF None] pr [OF None n2] by (auto simp: Let_def)
      qed
    qed
  qed
qed (simp_all add: Let_def)

text \<open>
  C1 (amended). The validation pass does not call the validator of the root: every call
  it makes is at the path of a field of the root or below one, never at the path of the
  root itself (the name of its type). For each field the walk reaches, the call of the
  field's own validator comes first, then the calls below the field, made on the value as
  that validator left it, then the calls of the later fields (pre-order).
\<close>

theorem root_not_validated:
  "(verifySubStructs M (VPtr t (Some (VStruct n fs))) = (e, cfg', calls)
      \<longrightarrow> (\<forall>q \<in> set calls. \<exists>name rest. q = joinPath n name @ rest)
          \<and> (n \<noteq> [] \<longrightarrow> n \<notin> set calls))
   \<and> (pkgPath f = []
       \<and> callVerify M addr (fval f) (joinPath path (fname f)) = (None, v1, c)
       \<and> verifyStructValues M addr v1 (joinPath path (fname f)) = (None, v2, s)
      \<longrightarrow> snd (snd (verifyFields M addr path (f # rest)))
            = c @ s @ snd (snd (verifyFields M addr path rest))
          \<and> (c = [] \<or> c = [joinPath path (fname f)])
          \<and> (\<forall>q \<in> set s. \<exists>name rest'. q = joinPath (joinPath path (fname f)) name @ rest'))"
proof (intro conjI impI)
  assume a: "verifySubStructs M (VPtr t (Some (VStruct n fs))) = (e, cfg', calls)"
  then have c: "calls = snd (snd (verifyFields M True n fs))"
    by (auto simp: verifySubStructs_def Let_def)
  show b: "\<forall>q \<in> set calls. \<exists>name rest. q = joinPath n name @ rest"
    unfolding c by (rule calls_below(2))
  assume n: "n \<noteq> []"
  show "n \<notin> set calls"
  proof
    assume "n \<in> set calls"
    then obtain name rest where "n = joinPath n name @ rest" using b by blast
    then have "length n = length (n @ ''.'' @ name @ rest)"
      using n by (simp add: joinPath_def)
    then show False by simp
  qed
next
  assume a: "pkgPath f = []
       \<and> callVerify M addr (fval f) (joinPath path (fname f)) = (None, v1, c)
       \<and> verifyStructValues M addr v1 (joinPath path (fname f)) = (None, v2, s)"
  then show "snd (snd (verifyFields M addr path (f # rest)))
            = c @ s @ snd (snd (verifyFields M addr path rest))"
    by (simp add: Let_def)
  show "c = [] \<or> c = [joinPath path (fname f)]"
    using a callVerify_calls [of M addr "fval f" "joinPath path (fname f)"] by simp
  show "\<forall>q \<in> set s. \<exists>name rest'. q = joinPath (joinPath path (fname f)) name @ rest'"
    using a calls_below(1) [of M addr v1 "joinPath path (fname f)"] by simp
qed

theorem root_not_validated_counterexample:
  "testMethods ''readVerifySection'' \<noteq> None
   \<and> fst (readVerifySection_Verify \<lparr>Name = [], Verified = False\<rparr>) = Some (Errorf ''missing name'')
   \<and> Read (exampleWorld []) testMethods ''config.yaml''
        (VPtr tReadVerifySection (Some (encReadVerifySection \<lparr>Name = [], Verified = False\<rparr>)))
      = \<lparr>failure = None,
         target = VPtr tReadVerifySection
           (Some (encReadVerifySection \<lparr>Name = [], Verified = False\<rparr>)),
         filesRead = [''config.yaml''], verifyCalls = []\<rparr>"
  by (simp add: Read_def validateConfigPointer_def example_defs test_defs verify_defs)

theorem root_not_validated_witness:
  "snd (snd (verifySubStructs testMethods
      (VPtr tReadEnvConfig (Some (VStruct ''readEnvConfig''
         [SField ''Section'' [] [] (encReadVerifySection \<lparr>Name = ''from-yaml'', Verified = False\<rparr>),
          SField ''Runtime'' [] [] (zero tReadRuntimeSection)])))))
     = [''readEnvConfig.Section'']
   \<and> ''readEnvConfig'' \<notin> set (snd (snd (verifySubStructs testMethods
      (VPtr tReadEnvConfig (Some (VStruct ''readEnvConfig''
         [SField ''Section'' [] [] (encReadVerifySection \<lparr>Name = ''from-yaml'', Verified = False\<rparr>),
          SField ''Runtime'' [] [] (zero tReadRuntimeSection)]))))))"
proof -
  let ?cfg = "VPtr tReadEnvConfig (Some (VStruct ''readEnvConfig''
         [SField ''Section'' [] [] (encReadVerifySection \<lparr>Name = ''from-yaml'', Verified = False\<rparr>),
          SField ''Runtime'' [] [] (zero tReadRuntimeSection)]))"
  have e: "verifySubStructs testMethods ?cfg
      = (fst (verifySubStructs testMethods ?cfg), fst (snd (verifySubStructs testMethods ?cfg)),
         snd (snd (verifySubStructs testMethods ?cfg)))"
    by simp
  have n: "''readEnvConfig'' \<noteq> []" by simp
  have "''readEnvConfig'' \<notin> set (snd (snd (verifySubStructs testMethods ?cfg)))"
    using root_not_validated [THEN conjunct1, THEN mp, OF e, THEN conjunct2, THEN mp, OF n] .
  moreover have "snd (snd (verifySubStructs testMethods ?cfg)) = [''readEnvConfig.Section'']"
    by (simp add: example_defs test_defs verify_defs)
  ultimately show ?thesis by blast
qed

lemma callVerify_pointer_calls:
  "(snd (snd (callVerify M addr (VPtr t (Some u)) path)) = [])
     = (valMethod M (VPtr t (Some u)) = None \<and> ptrMethod M u = None \<and> valMethod M u = None)"
proof (cases "valMethod M (VPtr t (Some u))")
  case (Some m)
  then show ?thesis by (simp add: callVerify_def Let_def runVerify_calls)
next
  case None
  note n = None
  show ?thesis
  proof (cases "ptrMethod M u")
    case (Some m)
    then show ?thesis
      using n by (simp add: callVerify_def callVerifyHere_def addrMethod_def Let_def runVerify_calls)
  next
    case None
    note p = None
    show ?thesis
    proof (cases "valMethod M u")
      case None
      then show ?thesis
        using n p by (simp add: callVerify_def callVerifyHere_def addrMethod_def Let_def)
    next
      case (Some m)
      then show ?thesis
        using n p
        by (cases u; cases "case u of VPtr t w \<Rightarrow> w | _ \<Rightarrow> None")
          (simp_all add: callVerify_def callVerifyHere_def addrMethod_def Let_def runVerify_calls)
    qed
  qed
qed

lemma callVerify_struct_calls:
  "(snd (snd (callVerify M addr (VStruct n fs) path)) = [])
     = ((addr \<longrightarrow> M n = None) \<and> valMethod M (VStruct n fs) = None)"
proof (cases "addr \<and> M n \<noteq> None")
  case True
  then show ?thesis
    by (auto simp: callVerify_def callVerifyHere_def addrMethod_def ptrMethod_def runVerify_calls)
next
  case False
  then have a: "addrMethod M addr (VStruct n fs) = None"
    by (auto simp: addrMethod_def ptrMethod_def)
  show ?thesis
  proof (cases "valMethod M (VStruct n fs)")
    case None
    then show ?thesis using a False by (auto simp: callVerify_def callVerifyHere_def)
  next
    case (Some m)
    then show ?thesis using a False by (auto simp: callVerify_def callVerifyHere_def runVerify_calls)
  qed
qed

lemma verifyFields_head_call:
  assumes e: "pkgPath f = []"
    and c: "snd (snd (callVerify M a (fval f) (joinPath p (fname f)))) = [q]"
  shows "\<exists>ys. snd (snd (verifyFields M a p (f # rest))) = q # ys"
proof -
  obtain e1 v1 c1 where cv: "callVerify M a (fval f) (joinPath p (fname f)) = (e1, v1, c1)"
    by (rule prod_cases3)
  then have c1: "c1 = [q]" using c by simp
  obtain e2 v2 s2 where sv: "verifyStructValues M a v1 (joinPath p (fname f)) = (e2, v2, s2)"
    by (rule prod_cases3)
  show ?thesis
  proof (cases e1)
    case (Some x)
    then show ?thesis using e cv c1 by (simp add: Let_def)
  next
    case None
    then show ?thesis using e cv c1 sv by (cases e2) (simp_all add: Let_def)
  qed
qed

lemma verifyFields_reaches:
  assumes i: "i < length fs" and e: "pkgPath (fs ! i) = []"
    and c: "snd (snd (callVerify M a (fval (fs ! i)) (joinPath p (fname (fs ! i))))) = [q]"
    and ok: "fst (verifyFields M a p (take i fs)) = None"
  shows "q \<in> set (snd (snd (verifyFields M a p fs)))"
proof -
  have fs: "take i fs @ (fs ! i) # drop (Suc i) fs = fs"
    using i by (rule id_take_nth_drop [symmetric])
  obtain ys where "snd (snd (verifyFields M a p ((fs ! i) # drop (Suc i) fs))) = q # ys"
    using verifyFields_head_call [OF e c] by blast
  then have "q \<in> set (snd (snd (verifyFields M a p (take i fs @ (fs ! i) # drop (Suc i) fs))))"
    unfolding verifyFields_append using ok by simp
  then show ?thesis unfolding fs .
qed


lemma typeOf_struct: "typeOf v = TStruct n ds \<Longrightarrow> \<exists>fs. v = VStruct n fs"
  by (cases v) simp_all

lemma declsOf_nth:
  "declsOf gs = declsOf fs \<Longrightarrow> i < length fs \<Longrightarrow>
     typeOf (fval (gs ! i)) = typeOf (fval (fs ! i))"
proof (induction fs arbitrary: gs i)
  case Nil
  then show ?case by simp
next
  case (Cons f fs)
  then obtain g gs' where g: "gs = g # gs'" by (cases gs) auto
  with Cons.prems have d: "declOf g = declOf f" "declsOf gs' = declsOf fs" by simp_all
  show ?case
  proof (cases i)
    case 0
    then show ?thesis using d(1) g by (cases f; cases g) simp
  next
    case (Suc j)
    then show ?thesis using Cons.IH [OF d(2), of j] Cons.prems(2) g by simp
  qed
qed

lemma callVerify_promoted:
  assumes n: "M n = Some (promoted i m')" and n': "M n' = Some m'"
    and i: "i < length fs" and x: "fval (fs ! i) = VStruct n' gs"
  shows "fst (callVerify M True (VStruct n fs) path)
           = map_option (VerifyError path) (fst (body m' (VStruct n' gs)))"
    and "\<exists>fs'. fst (snd (callVerify M True (VStruct n fs) path)) = VStruct n fs'
           \<and> callVerify M True (fval (fs' ! i)) q = runVerify m' (fval (fs' ! i)) q
           \<and> (fval (fs' ! i) = VStruct n' gs \<or> fval (fs' ! i) = snd (body m' (VStruct n' gs)))"
proof -
  have cv: "callVerify M True (VStruct n fs) path = runVerify (promoted i m') (VStruct n fs) path"
    using n by (simp add: callVerify_struct ptrMethod_def)
  have b: "body (promoted i m') (VStruct n fs)
      = (fst (body m' (VStruct n' gs)),
         VStruct n (fs[i := setFval (fs ! i) (snd (body m' (VStruct n' gs)))]))"
    using i x by (simp add: promoted_def Let_def)
  show "fst (callVerify M True (VStruct n fs) path)
           = map_option (VerifyError path) (fst (body m' (VStruct n' gs)))"
    unfolding cv runVerify_failure fst_invoke b by simp
  define v1 where "v1 = fst (snd (callVerify M True (VStruct n fs) path))"
  have t: "typeOf v1 = TStruct n (declsOf fs)"
    unfolding v1_def typeOf_callVerify by simp
  then obtain fs' where fs': "v1 = VStruct n fs'" using typeOf_struct by blast
  then have d: "declsOf fs' = declsOf fs" using t by simp
  have "typeOf (fval (fs' ! i)) = TStruct n' (declsOf gs)"
    using declsOf_nth [OF d i] x by simp
  then obtain gs' where gs': "fval (fs' ! i) = VStruct n' gs'" using typeOf_struct by blast
  have c2: "callVerify M True (fval (fs' ! i)) q = runVerify m' (fval (fs' ! i)) q"
    unfolding gs' using n' by (simp add: callVerify_struct ptrMethod_def)
  have v1': "v1 = snd (invoke (promoted i m') (VStruct n fs))"
    unfolding v1_def cv by (simp add: runVerify_def Let_def split: option.splits)
  have "v1 = VStruct n fs
      \<or> v1 = VStruct n (fs[i := setFval (fs ! i) (snd (body m' (VStruct n' gs)))])"
    unfolding v1' invoke_def Let_def b by simp
  then have "fval (fs' ! i) = VStruct n' gs \<or> fval (fs' ! i) = snd (body m' (VStruct n' gs))"
    using fs' i x by (auto simp: fval_setFval)
  then show "\<exists>fs'. fst (snd (callVerify M True (VStruct n fs) path)) = VStruct n fs'
           \<and> callVerify M True (fval (fs' ! i)) q = runVerify m' (fval (fs' ! i)) q
           \<and> (fval (fs' ! i) = VStruct n' gs \<or> fval (fs' ! i) = snd (body m' (VStruct n' gs)))"
    using fs' c2 unfolding v1_def by blast
qed

lemma verifyFields_both_calls:
  assumes e: "pkgPath f = []" and s: "fval f = VStruct n fs" and m: "M n = Some m"
    and cv: "callVerify M True (fval f) (joinPath p (fname f)) = (None, VStruct n fs', c)"
    and i: "i < length fs'" and e': "pkgPath (fs' ! i) = []"
    and s': "fval (fs' ! i) = VStruct n' gs" and m': "M n' = Some m'"
    and ok: "fst (verifyFields M True (joinPath p (fname f)) (take i fs')) = None"
  shows "\<exists>ys. snd (snd (verifyFields M True p (f # rest))) = joinPath p (fname f) # ys
           \<and> joinPath (joinPath p (fname f)) (fname (fs' ! i)) \<in> set ys"
proof -
  let ?pf = "joinPath p (fname f)"
  let ?q = "joinPath ?pf (fname (fs' ! i))"
  have "snd (snd (callVerify M True (fval f) ?pf)) = [?pf]"
    unfolding s using m by (simp add: callVerify_struct ptrMethod_def runVerify_calls)
  then have c: "c = [?pf]" using cv by simp
  have "snd (snd (callVerify M True (fval (fs' ! i)) ?q)) = [?q]"
    unfolding s' using m' by (simp add: callVerify_struct ptrMethod_def runVerify_calls)
  then have r: "?q \<in> set (snd (snd (verifyFields M True ?pf fs')))"
    using verifyFields_reaches [OF i e' _ ok] by blast
  obtain e2 fs2 s2 where vf: "verifyFields M True ?pf fs' = (e2, fs2, s2)"
    by (rule prod_cases3)
  have sv: "verifyStructValues M True (VStruct n fs') ?pf = (e2, VStruct n fs2, s2)"
    using vf by (simp add: Let_def)
  have r': "?q \<in> set s2" using r vf by simp
  show ?thesis
  proof (cases e2)
    case (Some x)
    then have "snd (snd (verifyFields M True p (f # rest))) = ?pf # s2"
      using e cv c sv by (simp add: Let_def)
    then show ?thesis using r' by simp
  next
    case None
    then have "snd (snd (verifyFields M True p (f # rest)))
        = ?pf # (s2 @ snd (snd (verifyFields M True p rest)))"
      using e cv c sv by (simp add: Let_def)
    then show ?thesis using r' by simp
  qed
qed

text \<open>
  C5 (amended). The pass keeps no record of the structs it has validated; it works visit
  by visit. A visit of a field makes at most one call of \<^verbatim>\<open>Verify\<close>, at the path of the
  field: none on an invalid value or on a nil pointer, whatever the type; on a pointer
  that is not nil, one unless the three type assertions all fail (on the pointer, on the
  address of what it points to, on what it points to: the last is how a field of type
  \<^verbatim>\<open>**T\<close> gets a call on its inner \<^verbatim>\<open>*T\<close>); on a struct, one unless neither the pointer to it,
  asked only when the struct is addressable, nor the struct itself has the method. When
  the \<^verbatim>\<open>Verify\<close> of a struct field has returned no error and the walk below it reaches, with
  no failure among the fields before it, an exported struct field whose type has
  \<^verbatim>\<open>Verify\<close>, both are called: at the path of the struct, then at the path of the field.
  When the struct has its \<^verbatim>\<open>Verify\<close> promoted from that field, the first call is the
  validator of the embedded struct run on it, and the visit of the field runs the same
  validator again, on the struct as the first call left it.
\<close>

theorem one_call_per_visit:
  "(snd (snd (callVerify M addr v path)) = [] \<or> snd (snd (callVerify M addr v path)) = [path])
   \<and> callVerify M addr Invalid path = (None, Invalid, [])
   \<and> callVerify M addr (VPtr t None) path = (None, VPtr t None, [])
   \<and> ((snd (snd (callVerify M addr (VPtr t (Some u)) path)) = [])
        = (valMethod M (VPtr t (Some u)) = None \<and> ptrMethod M u = None \<and> valMethod M u = None))
   \<and> ((snd (snd (callVerify M addr (VStruct n fs) path)) = [])
        = ((addr \<longrightarrow> M n = None) \<and> valMethod M (VStruct n fs) = None))
   \<and> (pkgPath f = [] \<and> fval f = VStruct n fs \<and> M n = Some m
       \<and> callVerify M True (fval f) (joinPath p (fname f)) = (None, VStruct n fs', c)
       \<and> i < length fs' \<and> pkgPath (fs' ! i) = [] \<and> fval (fs' ! i) = VStruct n' gs
       \<and> M n' = Some m'
       \<and> fst (verifyFields M True (joinPath p (fname f)) (take i fs')) = None
      \<longrightarrow> (\<exists>ys. snd (snd (verifyFields M True p (f # rest))) = joinPath p (fname f) # ys
             \<and> joinPath (joinPath p (fname f)) (fname (fs' ! i)) \<in> set ys))
   \<and> (M n = Some (promoted j m') \<and> M n' = Some m' \<and> j < length fs
       \<and> fval (fs ! j) = VStruct n' gs
      \<longrightarrow> fst (callVerify M True (VStruct n fs) path)
            = map_option (VerifyError path) (fst (body m' (VStruct n' gs)))
          \<and> (\<exists>fs'. fst (snd (callVerify M True (VStruct n fs) path)) = VStruct n fs'
                \<and> callVerify M True (fval (fs' ! j)) q = runVerify m' (fval (fs' ! j)) q
                \<and> (fval (fs' ! j) = VStruct n' gs
                    \<or> fval (fs' ! j) = snd (body m' (VStruct n' gs)))))"
proof (intro conjI impI)
  show "snd (snd (callVerify M addr v path)) = [] \<or> snd (snd (callVerify M addr v path)) = [path]"
    by (rule callVerify_calls)
  show "callVerify M addr Invalid path = (None, Invalid, [])"
    by (simp add: callVerify_def)
  show "callVerify M addr (VPtr t None) path = (None, VPtr t None, [])"
    by (simp add: callVerify_def)
  show "(snd (snd (callVerify M addr (VPtr t (Some u)) path)) = [])
        = (valMethod M (VPtr t (Some u)) = None \<and> ptrMethod M u = None \<and> valMethod M u = None)"
    by (rule callVerify_pointer_calls)
  show "(snd (snd (callVerify M addr (VStruct n fs) path)) = [])
        = ((addr \<longrightarrow> M n = None) \<and> valMethod M (VStruct n fs) = None)"
    by (rule callVerify_struct_calls)
next
  assume a: "pkgPath f = [] \<and> fval f = VStruct n fs \<and> M n = Some m
       \<and> callVerify M True (fval f) (joinPath p (fname f)) = (None, VStruct n fs', c)
       \<and> i < length fs' \<and> pkgPath (fs' ! i) = [] \<and> fval (fs' ! i) = VStruct n' gs
       \<and> M n' = Some m'
       \<and> fst (verifyFields M True (joinPath p (fname f)) (take i fs')) = None"
  show "\<exists>ys. snd (snd (verifyFields M True p (f # rest))) = joinPath p (fname f) # ys
             \<and> joinPath (joinPath p (fname f)) (fname (fs' ! i)) \<in> set ys"
    using a verifyFields_both_calls [where f = f and n = n and fs = fs and M = M and m = m
        and p = p and fs' = fs' and c = c and i = i and n' = n' and gs = gs and m' = m'
        and rest = rest]
    by blast
next
  assume a: "M n = Some (promoted j m') \<and> M n' = Some m' \<and> j < length fs
       \<and> fval (fs ! j) = VStruct n' gs"
  show "fst (callVerify M True (VStruct n fs) path)
            = map_option (VerifyError path) (fst (body m' (VStruct n' gs)))"
    using a callVerify_promoted(1) [where M = M and n = n and i = j and m' = m' and n' = n'
        and fs = fs and gs = gs and path = path]
    by blast
  show "\<exists>fs'. fst (snd (callVerify M True (VStruct n fs) path)) = VStruct n fs'
                \<and> callVerify M True (fval (fs' ! j)) q = runVerify m' (fval (fs' ! j)) q
                \<and> (fval (fs' ! j) = VStruct n' gs
                    \<or> fval (fs' ! j) = snd (body m' (VStruct n' gs)))"
    using a callVerify_promoted(2) [where M = M and n = n and i = j and m' = m' and n' = n'
        and fs = fs and gs = gs and path = path and q = q]
    by blast
qed


lemmas counter_defs =
  counterMethods_def promoted_def Counter_Verify_def tRoot_def tHolder_def tCounter_def

theorem one_call_per_visit_counterexample:
  "verifySubStructs counterMethods
      (VPtr tRoot (Some (VStruct ''Root''
         [SField ''H'' [] []
            (VStruct ''Holder''
               [SField ''Counter'' [] []
                  (VStruct ''Counter'' [SField ''Calls'' [] [] (VSlice TString [])])])])))
    = (None,
       VPtr tRoot (Some (VStruct ''Root''
         [SField ''H'' [] []
            (VStruct ''Holder''
               [SField ''Counter'' [] []
                  (VStruct ''Counter''
                     [SField ''Calls'' [] []
                        (VSlice TString [VString ''Verify'', VString ''Verify''])])])])),
       [''Root.H'', ''Root.H.Counter''])"
  by (simp add: counter_defs verify_defs)

theorem one_call_per_visit_witness:
  "callVerify counterMethods True (VPtr tCounter None) ''Root.P'' = (None, VPtr tCounter None, [])
   \<and> snd (snd (callVerify counterMethods True
        (VPtr (TPtr tCounter)
           (Some (VPtr tCounter
              (Some (VStruct ''Counter'' [SField ''Calls'' [] [] (VSlice TString [])])))))
        ''Root.PP''))
     = [''Root.PP'']
   \<and> (\<exists>ys. snd (snd (verifyFields counterMethods True ''Root''
          [SField ''H'' [] []
             (VStruct ''Holder''
                [SField ''Counter'' [] []
                   (VStruct ''Counter'' [SField ''Calls'' [] [] (VSlice TString [])])])]))
          = ''Root.H'' # ys
        \<and> ''Root.H.Counter'' \<in> set ys)
   \<and> fst (callVerify counterMethods True
        (VStruct ''Holder''
           [SField ''Counter'' [] []
              (VStruct ''Counter'' [SField ''Calls'' [] [] (VSlice TString [])])])
        ''Root.H'')
     = None"
proof -
  let ?mC = "\<lparr>onValue = False, body = Counter_Verify\<rparr>"
  let ?c0 = "VStruct ''Counter'' [SField ''Calls'' [] [] (VSlice TString [])]"
  let ?c1 = "VStruct ''Counter'' [SField ''Calls'' [] [] (VSlice TString [VString ''Verify''])]"
  let ?H = "SField ''H'' [] [] (VStruct ''Holder'' [SField ''Counter'' [] [] ?c0])"
  let ?pp = "VPtr (TPtr tCounter) (Some (VPtr tCounter (Some ?c0)))"
  have a: "callVerify counterMethods True (VPtr tCounter None) ''Root.P''
      = (None, VPtr tCounter None, [])"
    using one_call_per_visit [where M = counterMethods and addr = True and t = tCounter
        and path = "''Root.P''", THEN conjunct2, THEN conjunct2, THEN conjunct1] .
  have "valMethod counterMethods (VPtr tCounter (Some ?c0)) \<noteq> None"
    by (simp add: valMethod_def counter_defs)
  then have "snd (snd (callVerify counterMethods True ?pp ''Root.PP'')) \<noteq> []"
    using one_call_per_visit [where M = counterMethods and addr = True and t = "TPtr tCounter"
        and u = "VPtr tCounter (Some ?c0)" and path = "''Root.PP''",
        THEN conjunct2, THEN conjunct2, THEN conjunct2, THEN conjunct1]
    by simp
  then have b: "snd (snd (callVerify counterMethods True ?pp ''Root.PP'')) = [''Root.PP'']"
    using one_call_per_visit [where M = counterMethods and addr = True and v = ?pp
        and path = "''Root.PP''", THEN conjunct1]
    by simp
  have h: "pkgPath ?H = [] \<and> fval ?H = VStruct ''Holder'' [SField ''Counter'' [] [] ?c0]
       \<and> counterMethods ''Holder'' = Some (promoted 0 ?mC)
       \<and> callVerify counterMethods True (fval ?H) (joinPath ''Root'' (fname ?H))
           = (None, VStruct ''Holder'' [SField ''Counter'' [] [] ?c1], [''Root.H''])
       \<and> 0 < length [SField ''Counter'' [] [] ?c1]
       \<and> pkgPath ([SField ''Counter'' [] [] ?c1] ! 0) = []
       \<and> fval ([SField ''Counter'' [] [] ?c1] ! 0)
           = VStruct ''Counter'' [SField ''Calls'' [] [] (VSlice TString [VString ''Verify''])]
       \<and> counterMethods ''Counter'' = Some ?mC
       \<and> fst (verifyFields counterMethods True (joinPath ''Root'' (fname ?H))
             (take 0 [SField ''Counter'' [] [] ?c1])) = None"
    by (simp add: counter_defs verify_defs)
  have c: "\<exists>ys. snd (snd (verifyFields counterMethods True ''Root'' [?H])) = ''Root.H'' # ys
        \<and> ''Root.H.Counter'' \<in> set ys"
    using one_call_per_visit [where M = counterMethods and f = ?H and n = "''Holder''"
        and fs = "[SField ''Counter'' [] [] ?c0]" and m = "promoted 0 ?mC" and p = "''Root''"
        and fs' = "[SField ''Counter'' [] [] ?c1]" and c = "[''Root.H'']" and i = 0
        and n' = "''Counter''"
        and gs = "[SField ''Calls'' [] [] (VSlice TString [VString ''Verify''])]"
        and m' = ?mC and rest = "[]",
        THEN conjunct2, THEN conjunct2, THEN conjunct2, THEN conjunct2, THEN conjunct2,
        THEN conjunct1, THEN mp, OF h]
    by (simp add: joinPath_def)
  have k: "counterMethods ''Holder'' = Some (promoted 0 ?mC)
       \<and> counterMethods ''Counter'' = Some ?mC
       \<and> 0 < length [SField ''Counter'' [] [] ?c0]
       \<and> fval ([SField ''Counter'' [] [] ?c0] ! 0)
           = VStruct ''Counter'' [SField ''Calls'' [] [] (VSlice TString [])]"
    by (simp add: counter_defs)
  have d: "fst (callVerify counterMethods True
        (VStruct ''Holder'' [SField ''Counter'' [] [] ?c0]) ''Root.H'') = None"
    using one_call_per_visit [where M = counterMethods and n = "''Holder''" and j = 0 and m' = ?mC
        and n' = "''Counter''" and fs = "[SField ''Counter'' [] [] ?c0]"
        and gs = "[SField ''Calls'' [] [] (VSlice TString [])]" and path = "''Root.H''",
        THEN conjunct2, THEN conjunct2, THEN conjunct2, THEN conjunct2, THEN conjunct2,
        THEN conjunct2, THEN mp, OF k, THEN conjunct1]
    by (simp add: Counter_Verify_def)
  show ?thesis using a b c d by blast
qed


lemma applyEnvFields_unexported:
  "i < length fs \<Longrightarrow> pkgPath (fs ! i) \<noteq> [] \<Longrightarrow> snd (applyEnvFields W addr path fs) ! i = fs ! i"
proof (induction fs arbitrary: i)
  case Nil
  then show ?case by simp
next
  case (Cons f fs)
  show ?case
  proof (cases i)
    case 0
    then show ?thesis using Cons.prems by (simp add: Let_def)
  next
    case (Suc j)
    then have "snd (applyEnvFields W addr path fs) ! j = fs ! j"
      using Cons by simp
    then show ?thesis using Suc by (simp add: Let_def split: option.splits)
  qed
qed

lemma verifyFields_unexported:
  "i < length fs \<Longrightarrow> pkgPath (fs ! i) \<noteq> [] \<Longrightarrow>
   fst (snd (verifyFields M addr path fs)) ! i = fs ! i"
proof (induction fs arbitrary: i)
  case Nil
  then show ?case by simp
next
  case (Cons f fs)
  show ?case
  proof (cases i)
    case 0
    then show ?thesis using Cons.prems by (simp add: Let_def)
  next
    case (Suc j)
    then have "fst (snd (verifyFields M addr path fs)) ! j = fs ! j"
      using Cons by simp
    then show ?thesis using Suc by (simp add: Let_def split: option.splits)
  qed
qed

lemma applyEnvFields_sameExported:
  "list_all2 sameExported fs gs \<Longrightarrow>
   fst (applyEnvFields W addr path fs) = fst (applyEnvFields W addr path gs)
   \<and> list_all2 sameExported (snd (applyEnvFields W addr path fs))
        (snd (applyEnvFields W addr path gs))"
proof (induction fs gs rule: list_all2_induct)
  case Nil
  then show ?case by simp
next
  case (Cons f fs g gs)
  show ?case
  proof (cases "f = g")
    case True
    then show ?thesis
      using Cons by (auto simp: Let_def sameExported_def split: option.splits)
  next
    case False
    then have "pkgPath f \<noteq> []" "pkgPath g \<noteq> []"
      using Cons.hyps(1) by (simp_all add: sameExported_def)
    then show ?thesis
      using Cons by (simp add: Let_def sameExported_def)
  qed
qed

lemma verifyFields_sameExported:
  "list_all2 sameExported fs gs \<Longrightarrow>
   fst (verifyFields M addr path fs) = fst (verifyFields M addr path gs)
   \<and> snd (snd (verifyFields M addr path fs)) = snd (snd (verifyFields M addr path gs))
   \<and> list_all2 sameExported (fst (snd (verifyFields M addr path fs)))
        (fst (snd (verifyFields M addr path gs)))"
proof (induction fs gs rule: list_all2_induct)
  case Nil
  then show ?case by simp
next
  case (Cons f fs g gs)
  show ?case
  proof (cases "f = g")
    case True
    then show ?thesis
      using Cons by (auto simp: Let_def sameExported_def split: option.splits)
  next
    case False
    then have "pkgPath f \<noteq> []" "pkgPath g \<noteq> []"
      using Cons.hyps(1) by (simp_all add: sameExported_def)
    then show ?thesis
      using Cons by (simp add: Let_def sameExported_def)
  qed
qed

text \<open>
  C9. Both passes skip the unexported fields of every struct. The loop over the fields of
  a struct leaves each unexported field as it is, whatever the environment holds and
  whatever the validators do; and two lists of fields that differ only in what their
  unexported fields hold give the same error, the same calls and the same exported
  fields: nothing is coerced into, called on or walked through an unexported field. Such
  a field changes only inside the call of the validator of a struct around it.
\<close>

theorem unexported_fields_skipped:
  "(i < length fs \<and> pkgPath (fs ! i) \<noteq> []
      \<longrightarrow> snd (applyEnvFields W addr path fs) ! i = fs ! i
          \<and> fst (snd (verifyFields M addr path fs)) ! i = fs ! i)
   \<and> (list_all2 sameExported fs gs
      \<longrightarrow> fst (applyEnvFields W addr path fs) = fst (applyEnvFields W addr path gs)
          \<and> list_all2 sameExported (snd (applyEnvFields W addr path fs))
               (snd (applyEnvFields W addr path gs))
          \<and> fst (verifyFields M addr path fs) = fst (verifyFields M addr path gs)
          \<and> snd (snd (verifyFields M addr path fs)) = snd (snd (verifyFields M addr path gs))
          \<and> list_all2 sameExported (fst (snd (verifyFields M addr path fs)))
               (fst (snd (verifyFields M addr path gs))))"
  using applyEnvFields_unexported [of i fs W addr path]
    verifyFields_unexported [of i fs M addr path]
    applyEnvFields_sameExported [of fs gs W addr path]
    verifyFields_sameExported [of fs gs M addr path]
  by blast

theorem unexported_fields_skipped_witness:
  "snd (applyEnvFields (exampleWorld [(''APP_PORT'', ''9191''), (''SECRET'', ''from-env'')]) True
        ''Runtime''
        [SField ''Port'' [] ''APP_PORT'' (VInt KInt 8080),
         SField ''secret'' pkg ''SECRET'' (VString ''from-yaml'')]) ! 1
     = SField ''secret'' pkg ''SECRET'' (VString ''from-yaml'')
   \<and> fst (snd (verifyFields testMethods True ''readEnvConfig''
        [SField ''Section'' [] [] (encReadVerifySection \<lparr>Name = ''n'', Verified = False\<rparr>),
         SField ''hidden'' pkg [] (encReadVerifySection \<lparr>Name = [], Verified = False\<rparr>)])) ! 1
     = SField ''hidden'' pkg [] (encReadVerifySection \<lparr>Name = [], Verified = False\<rparr>)
   \<and> snd (snd (verifyFields testMethods True ''readEnvConfig''
        [SField ''Section'' [] [] (encReadVerifySection \<lparr>Name = ''n'', Verified = False\<rparr>),
         SField ''hidden'' pkg [] (encReadVerifySection \<lparr>Name = [], Verified = False\<rparr>)]))
     = snd (snd (verifyFields testMethods True ''readEnvConfig''
        [SField ''Section'' [] [] (encReadVerifySection \<lparr>Name = ''n'', Verified = False\<rparr>),
         SField ''hidden'' pkg [] (VString ''anything'')]))"
proof -
  let ?W = "exampleWorld [(''APP_PORT'', ''9191''), (''SECRET'', ''from-env'')]"
  let ?fs = "[SField ''Port'' [] ''APP_PORT'' (VInt KInt 8080),
         SField ''secret'' pkg ''SECRET'' (VString ''from-yaml'')]"
  let ?hs = "[SField ''Section'' [] [] (encReadVerifySection \<lparr>Name = ''n'', Verified = False\<rparr>),
         SField ''hidden'' pkg [] (encReadVerifySection \<lparr>Name = [], Verified = False\<rparr>)]"
  let ?gs = "[SField ''Section'' [] [] (encReadVerifySection \<lparr>Name = ''n'', Verified = False\<rparr>),
         SField ''hidden'' pkg [] (VString ''anything'')]"
  have h1: "1 < length ?fs \<and> pkgPath (?fs ! 1) \<noteq> []" by (simp add: pkg_def)
  have h2: "1 < length ?hs \<and> pkgPath (?hs ! 1) \<noteq> []" by (simp add: pkg_def)
  have h3: "list_all2 sameExported ?hs ?gs" by (simp add: sameExported_def pkg_def)
  have a: "snd (applyEnvFields ?W True ''Runtime'' ?fs) ! 1 = ?fs ! 1"
    using unexported_fields_skipped [where fs = ?fs and i = 1 and W = ?W,
        THEN conjunct1, THEN mp, OF h1] by blast
  have b: "fst (snd (verifyFields testMethods True ''readEnvConfig'' ?hs)) ! 1 = ?hs ! 1"
    using unexported_fields_skipped [where fs = ?hs and i = 1 and M = testMethods,
        THEN conjunct1, THEN mp, OF h2] by blast
  have c: "snd (snd (verifyFields testMethods True ''readEnvConfig'' ?hs))
      = snd (snd (verifyFields testMethods True ''readEnvConfig'' ?gs))"
    using unexported_fields_skipped [where fs = ?hs and gs = ?gs and M = testMethods,
        THEN conjunct2, THEN mp, OF h3] by blast
  show ?thesis using a b c by simp
qed

end
